theory Spec2Isabelle
  imports Main "HOL-Library.Sublist" "HOL-Library.Multiset"
begin

section \<open>Strings\<close>

text \<open>
  A JavaScript string is modelled as a \<^typ>\<open>string\<close>: a list of 8-bit code units, read as
  the Latin-1 range of the UTF-16 code units the program handles.  The three library
  operations the program uses on locators are embedded here:
  \<^verbatim>\<open>String.prototype.toLowerCase\<close>, \<^verbatim>\<open>String.prototype.includes\<close> and, further
  down, the two forms of \<^verbatim>\<open>String.prototype.replace\<close>.
\<close>

definition toLowerChar :: "char \<Rightarrow> char" where
  "toLowerChar c =
     (let n = (of_char c :: nat)
      in if 65 \<le> n \<and> n \<le> 90 then char_of (n + 32)
         else if 192 \<le> n \<and> n \<le> 222 \<and> n \<noteq> 215 then char_of (n + 32)
         else c)"

definition toLowerCase :: "string \<Rightarrow> string" where
  "toLowerCase s = map toLowerChar s"

fun startsWith :: "string \<Rightarrow> string \<Rightarrow> bool" where
  "startsWith s [] = True"
| "startsWith [] (m # ms) = False"
| "startsWith (c # cs) (m # ms) = (c = m \<and> startsWith cs ms)"

fun includes_str :: "string \<Rightarrow> string \<Rightarrow> bool" where
  "includes_str [] m = (m = [])"
| "includes_str (c # cs) m = (startsWith (c # cs) m \<or> includes_str cs m)"

section \<open>PlayerManager: stream type detection\<close>

text \<open>
  \<^verbatim>\<open>detectStreamType\<close> returns one of the three keys of \<^verbatim>\<open>this.adapters\<close>:
  \<^verbatim>\<open>'hls'\<close>, \<^verbatim>\<open>'dash'\<close> or \<^verbatim>\<open>'native'\<close>.
\<close>

datatype stream_type = Hls | Dash | Native

definition hlsMarker :: "string \<Rightarrow> bool" where
  "hlsMarker lowerUrl =
     (includes_str lowerUrl ''.m3u8'' \<or>
      includes_str lowerUrl ''format=m3u8'' \<or>
      includes_str lowerUrl ''/hls/'' \<or>
      includes_str lowerUrl ''hls.'' \<or>
      includes_str lowerUrl ''.m3u8?'')"

definition dashMarker :: "string \<Rightarrow> bool" where
  "dashMarker lowerUrl =
     (includes_str lowerUrl ''.mpd'' \<or>
      includes_str lowerUrl ''format=mpd'' \<or>
      includes_str lowerUrl ''/dash/'')"

definition nativeMarker :: "string \<Rightarrow> bool" where
  "nativeMarker lowerUrl =
     (includes_str lowerUrl ''.mp4'' \<or>
      includes_str lowerUrl ''.webm'' \<or>
      includes_str lowerUrl ''.ogg'' \<or>
      includes_str lowerUrl ''.mov'')"

definition detectStreamType :: "string \<Rightarrow> stream_type" where
  "detectStreamType url =
     (let lowerUrl = toLowerCase url
      in if hlsMarker lowerUrl then Hls
         else if dashMarker lowerUrl then Dash
         else if nativeMarker lowerUrl then Native
         else Hls)"

section \<open>StreamRecorder\<close>

subsection \<open>File names\<close>

text \<open>
  The character class \<^verbatim>\<open>[<>:"/\\|?*]\<close> of the first \<^verbatim>\<open>replace\<close> in
  \<^verbatim>\<open>generateFilename\<close>, and the class \<^verbatim>\<open>\s\<close> of the second, restricted to the code
  units below 256: tab, line feed, vertical tab, form feed, carriage return, space and
  no-break space.
\<close>

definition reservedChars :: "char list" where
  "reservedChars =
     [CHR ''<'', CHR ''>'', CHR '':'', CHR 0x22, CHR ''/'', CHR 0x5C, CHR ''|'', CHR ''?'',
      CHR ''*'']"

definition isSpace :: "char \<Rightarrow> bool" where
  "isSpace c = ((of_char c :: nat) \<in> {9, 10, 11, 12, 13, 32, 160})"

text \<open>\<^verbatim>\<open>s.replace(/[<>:"/\\|?*]/g, '')\<close>: every match is removed.\<close>

definition removeReserved :: "string \<Rightarrow> string" where
  "removeReserved s = filter (\<lambda>c. c \<notin> set reservedChars) s"

text \<open>
  \<^verbatim>\<open>s.replace(/\s+/g, '_')\<close>: scanning from the left, each maximal run of whitespace is
  one match of the greedy \<^verbatim>\<open>\s+\<close> and becomes one underscore.
\<close>

function replaceSpaceRuns :: "string \<Rightarrow> string" where
  "replaceSpaceRuns [] = []"
| "replaceSpaceRuns (c # cs) =
     (if isSpace c then CHR ''_'' # replaceSpaceRuns (dropWhile isSpace cs)
      else c # replaceSpaceRuns cs)"
  by pat_completeness auto
termination
  by (relation "measure length") (auto simp: length_dropWhile_le less_Suc_eq_le)

text \<open>\<^verbatim>\<open>s.replace(/[:.]/g, '-')\<close> and \<^verbatim>\<open>s.replace('T', '_')\<close> (first occurrence only).\<close>

definition replaceColonDot :: "string \<Rightarrow> string" where
  "replaceColonDot s = map (\<lambda>c. if c = CHR '':'' \<or> c = CHR ''.'' then CHR ''-'' else c) s"

fun replaceFirst :: "char \<Rightarrow> char \<Rightarrow> string \<Rightarrow> string" where
  "replaceFirst a b [] = []"
| "replaceFirst a b (c # cs) = (if c = a then b # cs else c # replaceFirst a b cs)"

text \<open>
  \<^verbatim>\<open>new Date()\<close> is read from the environment; its UTC fields are the input of
  \<^verbatim>\<open>toISOString\<close>, which prints \<^verbatim>\<open>YYYY-MM-DDTHH:mm:ss.sssZ\<close> for the years 0 to 9999
  and the expanded form \<^verbatim>\<open>+YYYYYY-MM-DDTHH:mm:ss.sssZ\<close> beyond.
\<close>

record date =
  year :: nat
  month :: nat
  day :: nat
  hours :: nat
  minutes :: nat
  seconds :: nat
  milliseconds :: nat

definition digit :: "nat \<Rightarrow> char" where
  "digit n = ''0123456789'' ! (n mod 10)"

fun pad :: "nat \<Rightarrow> nat \<Rightarrow> string" where
  "pad 0 n = []"
| "pad (Suc w) n = pad w (n div 10) @ [digit n]"

definition toISOString :: "date \<Rightarrow> string" where
  "toISOString d =
     (if year d \<le> 9999 then pad 4 (year d) else CHR ''+'' # pad 6 (year d)) @ ''-'' @
     pad 2 (month d) @ ''-'' @ pad 2 (day d) @ ''T'' @
     pad 2 (hours d) @ '':'' @ pad 2 (minutes d) @ '':'' @ pad 2 (seconds d) @ ''.'' @
     pad 3 (milliseconds d) @ ''Z''"

definition timestampOf :: "date \<Rightarrow> string" where
  "timestampOf now =
     take 19 (replaceFirst CHR ''T'' CHR ''_'' (replaceColonDot (toISOString now)))"

definition safeName :: "string \<Rightarrow> string" where
  "safeName channelName = take 50 (replaceSpaceRuns (removeReserved channelName))"

text \<open>
  \<^verbatim>\<open>generateFilename(channelName = 'recording')\<close>: the argument is optional, and
  \<open>None\<close> is the call without it.
\<close>

definition generateFilename :: "date \<Rightarrow> string option \<Rightarrow> string" where
  "generateFilename now arg =
     (let channelName = (case arg of None \<Rightarrow> ''recording'' | Some n \<Rightarrow> n)
      in safeName channelName @ ''_'' @ timestampOf now @ ''.webm'')"

text \<open>
  What the claim about the timestamp speaks of.  \<open>validDate\<close> bounds the fields as a
  \<^verbatim>\<open>Date\<close> does, for the years that \<^verbatim>\<open>toISOString\<close> prints with four digits;
  \<open>earlier\<close> compares two dates down to the second; \<open>sortsBefore\<close> is the order of
  strings by code units, the order in which a listing sorts file names.
\<close>

definition validDate :: "date \<Rightarrow> bool" where
  "validDate d =
     (year d \<le> 9999 \<and> 1 \<le> month d \<and> month d \<le> 12 \<and> 1 \<le> day d \<and> day d \<le> 31 \<and>
      hours d \<le> 23 \<and> minutes d \<le> 59 \<and> seconds d \<le> 59 \<and> milliseconds d \<le> 999)"

definition earlier :: "date \<Rightarrow> date \<Rightarrow> bool" where
  "earlier a b =
     (year a < year b \<or> (year a = year b \<and>
       (month a < month b \<or> (month a = month b \<and>
         (day a < day b \<or> (day a = day b \<and>
           (hours a < hours b \<or> (hours a = hours b \<and>
             (minutes a < minutes b \<or> (minutes a = minutes b \<and>
               seconds a < seconds b))))))))))"

fun sortsBefore :: "string \<Rightarrow> string \<Rightarrow> bool" where
  "sortsBefore [] [] = False"
| "sortsBefore [] (d # ds) = True"
| "sortsBefore (c # cs) [] = False"
| "sortsBefore (c # cs) (d # ds) =
     ((of_char c :: nat) < of_char d \<or> (c = d \<and> sortsBefore cs ds))"

subsection \<open>Recording state\<close>

type_synonym byte = nat

text \<open>A \<^verbatim>\<open>Blob\<close>: its MIME type and its bytes; \<^verbatim>\<open>size\<close> is the number of bytes.\<close>

record blob =
  blob_type :: string
  bytes :: "byte list"



datatype preset_name = Low | Medium | High

record preset =
  videoBitsPerSecond :: nat
  audioBitsPerSecond :: nat
  label :: string

fun presets :: "preset_name \<Rightarrow> preset" where
  "presets Low =
     \<lparr>videoBitsPerSecond = 500000, audioBitsPerSecond = 64000, label = ''Bajo (500 kbps)''\<rparr>"
| "presets Medium =
     \<lparr>videoBitsPerSecond = 1500000, audioBitsPerSecond = 128000, label = ''Medio (1.5 Mbps)''\<rparr>"
| "presets High =
     \<lparr>videoBitsPerSecond = 3000000, audioBitsPerSecond = 192000, label = ''Alto (3 Mbps)''\<rparr>"

text \<open>What the recorder reads of the video element.\<close>

record video_element =
  paused :: bool
  readyState :: nat

text \<open>The \<^verbatim>\<open>MediaStream\<close> of \<^verbatim>\<open>captureStream(30)\<close> and the \<^verbatim>\<open>MediaRecorder\<close> built on it.\<close>

record media_stream =
  frameRate :: nat
  tracksStopped :: bool

record media_recorder =
  mimeType :: string
  mr_videoBitsPerSecond :: nat
  mr_audioBitsPerSecond :: nat
  timeslice :: "nat option"

datatype rec_error =
    CannotRecord
  | EngineError string

text \<open>The callbacks the recorder invokes, in the order of the calls.\<close>

datatype rec_call =
    OnStart
  | OnStop "blob option" int
  | OnError rec_error
  | OnDataAvailable blob

record stream_recorder =
  videoElement :: "video_element option"
  mediaRecorder :: "media_recorder option"
  recordedChunks :: "blob list"
  stream :: "media_stream option"
  recording :: bool
  startTime :: "nat option"
  currentPreset :: preset_name
  onStart :: bool
  onStop :: bool
  onError :: bool
  onDataAvailable :: bool
  calls :: "rec_call list"

text \<open>
  The environment of one call of \<^verbatim>\<open>start\<close>: whether
  \<^verbatim>\<open>StreamRecorder.isSupported()\<close> holds, the value of \<^verbatim>\<open>Date.now()\<close>, and which of
  the three browser calls inside the \<^verbatim>\<open>try\<close> block throws, if any.
\<close>

datatype start_fault = CaptureStreamThrows string | ConstructorThrows string | StartThrows string

record start_env =
  isSupported :: bool
  now :: nat
  fault :: "start_fault option"

definition canRecord :: "start_env \<Rightarrow> stream_recorder \<Rightarrow> bool" where
  "canRecord env r =
     (case videoElement r of
        None \<Rightarrow> False
      | Some v \<Rightarrow> \<not> paused v \<and> readyState v \<ge> 2 \<and> isSupported env)"

definition call_onError :: "rec_error \<Rightarrow> stream_recorder \<Rightarrow> stream_recorder" where
  "call_onError e r = (if onError r then r\<lparr>calls := calls r @ [OnError e]\<rparr> else r)"


definition start :: "start_env \<Rightarrow> stream_recorder \<Rightarrow> bool \<times> stream_recorder" where
  "start env r =
     (if recording r then (False, r)
      else if \<not> canRecord env r then (False, call_onError CannotRecord r)
      else
        (case fault env of
           Some (CaptureStreamThrows m) \<Rightarrow> (False, call_onError (EngineError m) r)
         | Some (ConstructorThrows m) \<Rightarrow>
             (False,
              call_onError (EngineError m)
                (r\<lparr>stream := Some \<lparr>frameRate = 30, tracksStopped = False\<rparr>\<rparr>))
         | other \<Rightarrow>
             (let p = presets (currentPreset r);
                  r1 = r\<lparr>stream := Some \<lparr>frameRate = 30, tracksStopped = False\<rparr>,
                         mediaRecorder := Some \<lparr>mimeType = ''video/webm; codecs=vp8,opus'',
                            mr_videoBitsPerSecond = videoBitsPerSecond p,
                            mr_audioBitsPerSecond = audioBitsPerSecond p,
                            timeslice = None\<rparr>,
                         recordedChunks := []\<rparr>
              in case other of
                   Some (StartThrows m) \<Rightarrow> (False, call_onError (EngineError m) r1)
                 | _ \<Rightarrow>
                     (let r2 = r1\<lparr>mediaRecorder :=
                                     map_option (\<lambda>m. m\<lparr>timeslice := Some 1000\<rparr>)
                                       (mediaRecorder r1),
                                   recording := True,
                                   startTime := Some (now env)\<rparr>;
                          r3 = (if onStart r2 then r2\<lparr>calls := calls r2 @ [OnStart]\<rparr>
                                else r2)
                      in (True, r3)))))"






subsection \<open>The recorder and its MediaRecorder objects\<close>









section \<open>QualitySelector\<close>

subsection \<open>Numbers and their text\<close>

text \<open>
  A level's \<^verbatim>\<open>height\<close>, \<^verbatim>\<open>width\<close> and \<^verbatim>\<open>bitrate\<close> are non-negative integers or
  \<^verbatim>\<open>undefined\<close> (\<open>None\<close>).  \<^verbatim>\<open>if (x)\<close> holds for a number that is defined and not zero,
  and \<^verbatim>\<open>x || 0\<close> is that number, or zero.
\<close>

definition truthy :: "nat option \<Rightarrow> bool" where
  "truthy x = (case x of None \<Rightarrow> False | Some n \<Rightarrow> n \<noteq> 0)"

definition orZero :: "nat option \<Rightarrow> nat" where
  "orZero x = (case x of None \<Rightarrow> 0 | Some n \<Rightarrow> n)"

text \<open>The decimal text of a non-negative integer, as a template literal prints it.\<close>

function showNat :: "nat \<Rightarrow> string" where
  "showNat n = (if n < 10 then [digit n] else showNat (n div 10) @ [digit n])"
  by pat_completeness auto
termination
  by (relation "measure id") auto

text \<open>
  \<^verbatim>\<open>n / 1000\<close> on doubles, for an integer \<open>0 < n < 2^53\<close>: the quotient is rounded to
  the nearest double, ties to even.  The double is the pair \<open>(m, e)\<close> of its 53-bit
  significand and binary exponent, with value \<open>m / 2^e\<close>; \<open>scaleExp\<close> finds the
  exponent that brings \<open>n * 2^e / 1000\<close> to at least \<open>2^52\<close>.
\<close>

function scaleExp :: "nat \<Rightarrow> nat \<Rightarrow> nat" where
  "scaleExp n e =
     (if 1000 * 2 ^ 52 \<le> n * 2 ^ e \<or> 62 \<le> e then e else scaleExp n (Suc e))"
  by pat_completeness auto
termination
  by (relation "measure (\<lambda>(n, e). 62 - e)") auto

definition div1000 :: "nat \<Rightarrow> nat \<times> nat" where
  "div1000 n =
     (let e = scaleExp n 0;
          q = (n * 2 ^ e) div 1000;
          r = (n * 2 ^ e) mod 1000
      in (if r > 500 \<or> (r = 500 \<and> odd q) then q + 1 else q, e))"

text \<open>
  \<^verbatim>\<open>Math.round(x)\<close> is \<open>floor (x + 1/2)\<close>, and \<^verbatim>\<open>x.toFixed(1)\<close> prints the integer
  \<open>k\<close> nearest to \<open>10 * x\<close> (the larger one of two) with a point before its last digit.
\<close>

definition mathRound :: "nat \<times> nat \<Rightarrow> nat" where
  "mathRound x = (case x of (m, e) \<Rightarrow> (2 * m + 2 ^ e) div 2 ^ (e + 1))"

definition toFixed1 :: "nat \<times> nat \<Rightarrow> string" where
  "toFixed1 x =
     (case x of (m, e) \<Rightarrow>
        (let k = (20 * m + 2 ^ e) div 2 ^ (e + 1)
         in showNat (k div 10) @ ''.'' @ [digit k]))"

subsection \<open>Levels and the popup\<close>

record quality_level =
  index :: nat
  height :: "nat option"
  width :: "nat option"
  bitrate :: "nat option"

text \<open>
  A button of the popup: whether its class list has \<^verbatim>\<open>active\<close>, its text, and the index
  its click handler passes to \<^verbatim>\<open>select\<close>.
\<close>

record quality_option =
  active :: bool
  textContent :: string
  selects :: int

text \<open>
  The selector.  \<open>playerManager\<close> tells whether \<^verbatim>\<open>initialize\<close> has stored a player
  manager; \<open>popup\<close> and \<open>button\<close> are \<open>None\<close> while the elements are missing,
  otherwise the popup's buttons and whether the quality button has the class
  \<^verbatim>\<open>hidden\<close>; \<open>visible\<close> is the popup's class \<^verbatim>\<open>visible\<close>; \<open>setQualityCalls\<close>
  lists the calls of \<^verbatim>\<open>playerManager.setQuality\<close>.
\<close>

record quality_selector =
  playerManager :: bool
  popup :: "quality_option list option"
  button :: "bool option"
  visible :: bool
  currentQuality :: int
  levels :: "quality_level list"
  setQualityCalls :: "int list"

definition formatLabel :: "quality_level \<Rightarrow> string" where
  "formatLabel level =
     (if truthy (height level) then showNat (orZero (height level)) @ ''p''
      else if truthy (bitrate level) then
        (let kbps = mathRound (div1000 (orZero (bitrate level)))
         in if kbps \<ge> 1000 then toFixed1 (div1000 kbps) @ '' Mbps''
            else showNat kbps @ '' kbps'')
      else ''Level '' @ showNat (index level))"

text \<open>
  \<^verbatim>\<open>[...levels].sort(cmp)\<close>: the sort of a copy.  \<^verbatim>\<open>Array.prototype.sort\<close> is stable,
  and with a consistent comparator its result is the one stable ordering; inserting from
  the right, each element before the first one it does not have to follow, computes it.
\<close>

fun insertBy :: "('a \<Rightarrow> 'a \<Rightarrow> int) \<Rightarrow> 'a \<Rightarrow> 'a list \<Rightarrow> 'a list" where
  "insertBy cmp x [] = [x]"
| "insertBy cmp x (y # ys) = (if cmp x y \<le> 0 then x # y # ys else y # insertBy cmp x ys)"

definition sortBy :: "('a \<Rightarrow> 'a \<Rightarrow> int) \<Rightarrow> 'a list \<Rightarrow> 'a list" where
  "sortBy cmp xs = foldr (insertBy cmp) xs []"

definition byHeightDesc :: "quality_level \<Rightarrow> quality_level \<Rightarrow> int" where
  "byHeightDesc a b = int (orZero (height b)) - int (orZero (height a))"

definition hide :: "quality_selector \<Rightarrow> quality_selector" where
  "hide q = (case popup q of None \<Rightarrow> q | Some p \<Rightarrow> q\<lparr>visible := False\<rparr>)"

text \<open>\<open>autoText\<close> is the text of \<^verbatim>\<open>i18n.t('player.quality.auto')\<close>.\<close>

definition render :: "string \<Rightarrow> quality_selector \<Rightarrow> quality_selector" where
  "render autoText q =
     (case popup q of
        None \<Rightarrow> q
      | Some p \<Rightarrow>
          (let autoOption = \<lparr>active = (currentQuality q = - 1), textContent = autoText,
                              selects = - 1\<rparr>;
               sorted = sortBy byHeightDesc (levels q)
           in q\<lparr>popup := Some (autoOption #
                 map (\<lambda>level. \<lparr>active = (currentQuality q = int (index level)),
                                 textContent = formatLabel level,
                                 selects = int (index level)\<rparr>) sorted)\<rparr>))"


definition clear :: "quality_selector \<Rightarrow> quality_selector" where
  "clear q =
     hide (q\<lparr>levels := [], currentQuality := - 1, button := map_option (\<lambda>_. True) (button q)\<rparr>)"

definition select :: "string \<Rightarrow> int \<Rightarrow> quality_selector \<Rightarrow> quality_selector" where
  "select autoText i q =
     (let q1 = q\<lparr>currentQuality := i\<rparr>;
          q2 = (if playerManager q1 then q1\<lparr>setQualityCalls := setQualityCalls q1 @ [i]\<rparr>
                else q1)
      in hide (render autoText q2))"

section \<open>PlayerManager and its adapters\<close>

subsection \<open>Errors, effects and state\<close>

text \<open>
  The values that reach an error callback or reject a promise: an \<^verbatim>\<open>Error\<close> object with
  its message, the \<^verbatim>\<open>data\<close> of an hls.js \<^verbatim>\<open>ERROR\<close> event (its \<^verbatim>\<open>fatal\<close>,
  \<^verbatim>\<open>type\<close> and \<^verbatim>\<open>details\<close>), the payload of a dash.js \<^verbatim>\<open>ERROR\<close> event (its text), and
  the \<^verbatim>\<open>error\<close> event of the video element.  Of these only the hls.js data has a
  \<^verbatim>\<open>fatal\<close> property: the DASH adapter passes the dash.js event on as it is, and
  nothing in the program gives it one.
\<close>

datatype error_type = NETWORK_ERROR | MEDIA_ERROR | KEY_SYSTEM_ERROR | MUX_ERROR | OTHER_ERROR

datatype js_error =
    Error string
  | HlsErrorData bool error_type string
  | DashErrorEvent string
  | VideoErrorEvent

text \<open>The test \<^verbatim>\<open>error && error.fatal\<close> of the handler in \<^verbatim>\<open>setupAdapterEvents\<close>.\<close>

fun fatal :: "js_error \<Rightarrow> bool" where
  "fatal (Error m) = False"
| "fatal (HlsErrorData f t d) = f"
| "fatal (DashErrorEvent m) = False"
| "fatal VideoErrorEvent = False"

fun error_type_name :: "error_type \<Rightarrow> string" where
  "error_type_name NETWORK_ERROR = ''networkError''"
| "error_type_name MEDIA_ERROR = ''mediaError''"
| "error_type_name KEY_SYSTEM_ERROR = ''keySystemError''"
| "error_type_name MUX_ERROR = ''muxError''"
| "error_type_name OTHER_ERROR = ''otherError''"

text \<open>
  What the player manager and its adapters do to the outside, in order: timer calls,
  calls of an adapter's \<^verbatim>\<open>load\<close> and \<^verbatim>\<open>destroy\<close>, calls on the video element and on
  the two engines, calls of the manager's own callbacks, and the value a call of
  \<^verbatim>\<open>load\<close> (named by the timer it created) returns.
\<close>

datatype effect =
    ClearTimeout nat
  | SetTimeout nat nat
  | Destroy stream_type
  | Load stream_type string
  | VideoPause
  | VideoRemoveSrc
  | VideoLoad
  | VideoPlay
  | HlsAttachMedia
  | HlsLoadSource string
  | HlsStartLoad
  | HlsRecoverMediaError
  | HlsDestroy
  | DashInitialize string
  | DashReset
  | CallOnError js_error
  | CallOnLevelsAvailable
  | CallOnStateChange string
  | Returned nat bool

text \<open>
  The hls.js instance \<^verbatim>\<open>this.hls\<close> of the HLS adapter, with the variable
  \<^verbatim>\<open>resolved\<close> of the call of \<^verbatim>\<open>load\<close> that made it and that call's promise; the
  dash.js player \<^verbatim>\<open>this.player\<close> likewise.
\<close>

record hls_engine =
  source :: string
  resolved :: bool
  promise :: nat

record dash_player =
  dash_source :: string
  dash_promise :: nat

text \<open>What the browser offers; \<open>dashFault\<close> is the exception inside the \<^verbatim>\<open>try\<close> of
  \<^verbatim>\<open>DashAdapter.load\<close>, if one is thrown.\<close>

datatype dash_fault = CreateThrows string | InitializeThrows string

record browser =
  canPlayNativeHls :: bool
  hlsSupported :: bool
  dashSupported :: bool
  dashFault :: "dash_fault option"

text \<open>
  The player manager with its three adapters, the video element's \<^verbatim>\<open>src\<close> (with the
  adapter that assigned it) and the part of the event loop it uses: the pending timers
  with their due times, the next timer id, the clock in milliseconds, and the calls of
  \<^verbatim>\<open>load\<close> still waiting in \<^verbatim>\<open>await Promise.race(...)\<close>.  A call of \<^verbatim>\<open>load\<close> creates
  exactly one timer, and is named by that timer's id.
\<close>

record player_manager =
  currentAdapter :: "stream_type option"
  currentUrl :: "string option"
  loadTimeoutId :: "nat option"
  pm_onError :: bool
  pm_onStateChange :: bool
  pm_onLevelsAvailable :: bool
  adapterEvents :: "stream_type \<Rightarrow> bool"
  hls :: "hls_engine option"
  player :: "dash_player option"
  videoSrc :: "(stream_type \<times> string) option"
  timers :: "(nat \<times> nat) list"
  nextTimer :: nat
  clock :: nat
  pending :: "nat list"
  trace :: "effect list"

definition initial :: "bool \<Rightarrow> bool \<Rightarrow> bool \<Rightarrow> player_manager" where
  "initial onErr onState onLevels =
     \<lparr>currentAdapter = None, currentUrl = None, loadTimeoutId = None,
      pm_onError = onErr, pm_onStateChange = onState, pm_onLevelsAvailable = onLevels,
      adapterEvents = (\<lambda>k. False), hls = None, player = None, videoSrc = None,
      timers = [], nextTimer = 1, clock = 0, pending = [], trace = []\<rparr>"

definition emit :: "effect \<Rightarrow> player_manager \<Rightarrow> player_manager" where
  "emit e s = s\<lparr>trace := trace s @ [e]\<rparr>"

subsection \<open>Timers\<close>

definition clearTimeout :: "nat \<Rightarrow> player_manager \<Rightarrow> player_manager" where
  "clearTimeout i s = emit (ClearTimeout i) (s\<lparr>timers := filter (\<lambda>t. fst t \<noteq> i) (timers s)\<rparr>)"

text \<open>
  \<^verbatim>\<open>if (this.loadTimeoutId) { clearTimeout(this.loadTimeoutId); this.loadTimeoutId = null; }\<close>,
  which the source has three times: in \<^verbatim>\<open>stop\<close>, after the race in \<^verbatim>\<open>load\<close>,
  and in the error handler of \<^verbatim>\<open>setupAdapterEvents\<close>.
\<close>

definition cancelLoadTimeout :: "player_manager \<Rightarrow> player_manager" where
  "cancelLoadTimeout s =
     (case loadTimeoutId s of
        None \<Rightarrow> s
      | Some i \<Rightarrow> if i \<noteq> 0 then (clearTimeout i s)\<lparr>loadTimeoutId := None\<rparr> else s)"

subsection \<open>The adapters' destroy and the manager's stop\<close>

fun adapter_destroy :: "stream_type \<Rightarrow> player_manager \<Rightarrow> player_manager" where
  "adapter_destroy Hls s =
     (case hls s of None \<Rightarrow> s | Some h \<Rightarrow> (emit HlsDestroy s)\<lparr>hls := None\<rparr>)"
| "adapter_destroy Dash s =
     (case player s of None \<Rightarrow> s | Some p \<Rightarrow> (emit DashReset s)\<lparr>player := None\<rparr>)"
| "adapter_destroy Native s = emit VideoLoad (s\<lparr>videoSrc := Some (Native, [])\<rparr>)"

definition stop :: "player_manager \<Rightarrow> player_manager" where
  "stop s =
     (let s1 = cancelLoadTimeout s;
          s2 = (case currentAdapter s1 of
                  None \<Rightarrow> s1
                | Some a \<Rightarrow> (adapter_destroy a (emit (Destroy a) s1))\<lparr>currentAdapter := None\<rparr>);
          s3 = emit VideoLoad (emit VideoRemoveSrc (emit VideoPause s2)\<lparr>videoSrc := None\<rparr>)
      in s3\<lparr>currentUrl := None\<rparr>)"

subsection \<open>The end of a call of load\<close>

text \<open>
  The code after \<^verbatim>\<open>await Promise.race([loadPromise, timeoutPromise])\<close>.  A promise settles
  once: the call \<open>i\<close> continues only while it is pending.  When the race resolves, the
  timeout is cancelled and the call returns \<^verbatim>\<open>true\<close>; when it rejects, the
  \<^verbatim>\<open>catch\<close> block passes the error to \<^verbatim>\<open>this.onError\<close>, if set, and the call returns
  \<^verbatim>\<open>false\<close>.
\<close>

definition call_onError_pm :: "js_error \<Rightarrow> player_manager \<Rightarrow> player_manager" where
  "call_onError_pm e s = (if pm_onError s then emit (CallOnError e) s else s)"

definition raceResolved :: "nat \<Rightarrow> player_manager \<Rightarrow> player_manager" where
  "raceResolved i s =
     (if i \<in> set (pending s)
      then emit (Returned i True) (cancelLoadTimeout (s\<lparr>pending := removeAll i (pending s)\<rparr>))
      else s)"

definition raceRejected :: "nat \<Rightarrow> js_error \<Rightarrow> player_manager \<Rightarrow> player_manager" where
  "raceRejected i e s =
     (if i \<in> set (pending s)
      then emit (Returned i False) (call_onError_pm e (s\<lparr>pending := removeAll i (pending s)\<rparr>))
      else s)"

subsection \<open>The adapters' load, up to the return of the promise\<close>

text \<open>
  Each takes the promise it is about to return, and gives back the error it has
  already rejected the promise with, if any.
\<close>

definition HlsAdapter_load ::
    "browser \<Rightarrow> nat \<Rightarrow> string \<Rightarrow> player_manager \<Rightarrow> js_error option \<times> player_manager" where
  "HlsAdapter_load b i url s =
     (let s1 = adapter_destroy Hls s
      in if canPlayNativeHls b then (None, s1\<lparr>videoSrc := Some (Hls, url)\<rparr>)
         else if \<not> hlsSupported b
           then (Some (Error ''HLS is not supported in this browser''), s1)
         else (None,
               emit HlsAttachMedia
                 (s1\<lparr>hls := Some \<lparr>source = url, resolved = False, promise = i\<rparr>\<rparr>)))"

definition DashAdapter_load ::
    "browser \<Rightarrow> nat \<Rightarrow> string \<Rightarrow> player_manager \<Rightarrow> js_error option \<times> player_manager" where
  "DashAdapter_load b i url s =
     (let s1 = adapter_destroy Dash s
      in if \<not> dashSupported b then (Some (Error ''DASH.js is not available''), s1)
         else
           (case dashFault b of
              Some (CreateThrows m) \<Rightarrow> (Some (Error m), s1)
            | Some (InitializeThrows m) \<Rightarrow>
                (Some (Error m), s1\<lparr>player := Some \<lparr>dash_source = url, dash_promise = i\<rparr>\<rparr>)
            | None \<Rightarrow>
                (None,
                 emit (DashInitialize url)
                   (s1\<lparr>player := Some \<lparr>dash_source = url, dash_promise = i\<rparr>\<rparr>))))"

definition NativeAdapter_load ::
    "nat \<Rightarrow> string \<Rightarrow> player_manager \<Rightarrow> js_error option \<times> player_manager" where
  "NativeAdapter_load i url s = (None, emit VideoLoad (s\<lparr>videoSrc := Some (Native, url)\<rparr>))"

fun adapter_load ::
    "browser \<Rightarrow> stream_type \<Rightarrow> nat \<Rightarrow> string \<Rightarrow> player_manager \<Rightarrow>
     js_error option \<times> player_manager" where
  "adapter_load b Hls i url s = HlsAdapter_load b i url s"
| "adapter_load b Dash i url s = DashAdapter_load b i url s"
| "adapter_load b Native i url s = NativeAdapter_load i url s"

subsection \<open>PlayerManager.load\<close>

text \<open>
  \<^verbatim>\<open>setupAdapterEvents\<close> stores the manager's handlers in the current adapter.
\<close>

definition setupAdapterEvents :: "player_manager \<Rightarrow> player_manager" where
  "setupAdapterEvents s =
     (case currentAdapter s of
        None \<Rightarrow> s
      | Some a \<Rightarrow> s\<lparr>adapterEvents := (adapterEvents s)(a := True)\<rparr>)"

text \<open>\<^verbatim>\<open>this.loadTimeoutId = setTimeout(() => reject(new Error('Load timeout')), 30000)\<close>.\<close>

definition setLoadTimeout :: "player_manager \<Rightarrow> player_manager" where
  "setLoadTimeout s =
     (let i = nextTimer s
      in emit (SetTimeout i 30000)
           (s\<lparr>timers := timers s @ [(i, clock s + 30000)], nextTimer := Suc i,
              loadTimeoutId := Some i, pending := pending s @ [i]\<rparr>))"

text \<open>
  The part of \<^verbatim>\<open>load\<close> after \<^verbatim>\<open>this.stop()\<close>, up to the \<^verbatim>\<open>await\<close>; where the
  adapter has rejected its promise at once, the race rejects before anything else runs.
\<close>

definition beginLoad :: "browser \<Rightarrow> string \<Rightarrow> player_manager \<Rightarrow> player_manager" where
  "beginLoad b url s =
     (let streamType = detectStreamType url;
          s1 = setupAdapterEvents (s\<lparr>currentAdapter := Some streamType, currentUrl := Some url\<rparr>);
          i = nextTimer s1;
          (rejected, s2) = adapter_load b streamType i url (emit (Load streamType url) s1);
          s3 = setLoadTimeout s2
      in case rejected of None \<Rightarrow> s3 | Some e \<Rightarrow> raceRejected i e s3)"

definition load :: "browser \<Rightarrow> string \<Rightarrow> player_manager \<Rightarrow> player_manager" where
  "load b url s = beginLoad b url (stop s)"

subsection \<open>Events\<close>

text \<open>The callback of the timer \<open>i\<close>: it runs when the timer is pending and due.\<close>

definition timeoutFires :: "nat \<Rightarrow> player_manager \<Rightarrow> player_manager" where
  "timeoutFires i s =
     (case find (\<lambda>t. fst t = i) (timers s) of
        None \<Rightarrow> s
      | Some t \<Rightarrow>
          if clock s < snd t then s
          else raceRejected i (Error ''Load timeout'')
                 (s\<lparr>timers := filter (\<lambda>t. fst t \<noteq> i) (timers s)\<rparr>))"

text \<open>
  The handler that \<^verbatim>\<open>setupAdapterEvents\<close> stores in \<^verbatim>\<open>currentAdapter.onError\<close>, and
  the adapter's own \<^verbatim>\<open>if (this.onError) this.onError(e)\<close>.
\<close>

definition onAdapterError :: "js_error \<Rightarrow> player_manager \<Rightarrow> player_manager" where
  "onAdapterError e s = call_onError_pm e (if fatal e then cancelLoadTimeout s else s)"

definition adapter_onError :: "stream_type \<Rightarrow> js_error \<Rightarrow> player_manager \<Rightarrow> player_manager" where
  "adapter_onError a e s = (if adapterEvents s a then onAdapterError e s else s)"

text \<open>The handler of \<^verbatim>\<open>Hls.Events.ERROR\<close> in \<^verbatim>\<open>HlsAdapter.load\<close>.\<close>

definition hlsOnError :: "bool \<Rightarrow> error_type \<Rightarrow> string \<Rightarrow> player_manager \<Rightarrow> player_manager" where
  "hlsOnError f t d s =
     (case hls s of
        None \<Rightarrow> s
      | Some h \<Rightarrow>
          if f then
            (let s1 = adapter_onError Hls (HlsErrorData f t d) s
             in case t of
                  NETWORK_ERROR \<Rightarrow> emit HlsStartLoad s1
                | MEDIA_ERROR \<Rightarrow> emit HlsRecoverMediaError s1
                | _ \<Rightarrow>
                    if \<not> resolved h
                    then raceRejected (promise h)
                           (Error (''Fatal HLS error: '' @ error_type_name t @ '' - '' @ d))
                           (adapter_destroy Hls s1)
                    else s1)
          else s)"

text \<open>The handlers of \<^verbatim>\<open>MEDIA_ATTACHED\<close> and \<^verbatim>\<open>MANIFEST_PARSED\<close>.\<close>

definition hlsMediaAttached :: "player_manager \<Rightarrow> player_manager" where
  "hlsMediaAttached s = (case hls s of None \<Rightarrow> s | Some h \<Rightarrow> emit (HlsLoadSource (source h)) s)"

definition hlsManifestParsed :: "player_manager \<Rightarrow> player_manager" where
  "hlsManifestParsed s =
     (case hls s of
        None \<Rightarrow> s
      | Some h \<Rightarrow>
          if \<not> resolved h
          then raceResolved (promise h) (emit VideoPlay (s\<lparr>hls := Some (h\<lparr>resolved := True\<rparr>)\<rparr>))
          else s)"

text \<open>The handlers of the dash.js events \<^verbatim>\<open>ERROR\<close>, \<^verbatim>\<open>STREAM_INITIALIZED\<close> and
  \<^verbatim>\<open>PLAYBACK_STARTED\<close>.\<close>

definition dashOnError :: "string \<Rightarrow> player_manager \<Rightarrow> player_manager" where
  "dashOnError m s =
     (case player s of None \<Rightarrow> s | Some p \<Rightarrow> adapter_onError Dash (DashErrorEvent m) s)"

definition dashStreamInitialized :: "player_manager \<Rightarrow> player_manager" where
  "dashStreamInitialized s =
     (case player s of
        None \<Rightarrow> s
      | Some p \<Rightarrow>
          raceResolved (dash_promise p)
            (if adapterEvents s Dash \<and> pm_onLevelsAvailable s then emit CallOnLevelsAvailable s
             else s))"

definition dashPlaybackStarted :: "player_manager \<Rightarrow> player_manager" where
  "dashPlaybackStarted s =
     (case player s of
        None \<Rightarrow> s
      | Some p \<Rightarrow>
          if adapterEvents s Dash \<and> pm_onStateChange s
          then emit (CallOnStateChange ''playing'') s else s)"

text \<open>
  The listeners on the video element: \<^verbatim>\<open>loadedHandler\<close> and \<^verbatim>\<open>errorHandler\<close> of the
  native adapter, and the two of the HLS adapter where the browser plays HLS itself,
  each for the promise of the call that added it.
\<close>

definition nativeLoaded :: "nat \<Rightarrow> player_manager \<Rightarrow> player_manager" where
  "nativeLoaded i s = raceResolved i s"

definition nativeError :: "nat \<Rightarrow> player_manager \<Rightarrow> player_manager" where
  "nativeError i s =
     raceRejected i (Error ''Failed to load video'') (adapter_onError Native VideoErrorEvent s)"

definition hlsNativeLoaded :: "nat \<Rightarrow> player_manager \<Rightarrow> player_manager" where
  "hlsNativeLoaded i s = raceResolved i s"

definition hlsNativeError :: "nat \<Rightarrow> player_manager \<Rightarrow> player_manager" where
  "hlsNativeError i s = raceRejected i VideoErrorEvent s"

text \<open>\<^verbatim>\<open>PlayerManager.destroy\<close>.\<close>

definition destroy :: "player_manager \<Rightarrow> player_manager" where
  "destroy s = adapter_destroy Native (adapter_destroy Dash (adapter_destroy Hls (stop s)))"

text \<open>
  One turn of the event loop: a call from the application, the passing of time, a timer,
  or an event of an engine or of the video element.
\<close>

datatype event =
    CallLoad string
  | CallStop
  | CallDestroy
  | Advance nat
  | Timer nat
  | HlsError bool error_type string
  | HlsMediaAttached
  | HlsManifestParsed
  | DashError string
  | DashStreamInitialized
  | DashPlaybackStarted
  | NativeLoaded nat
  | NativeError nat
  | HlsNativeLoaded nat
  | HlsNativeError nat

fun step :: "browser \<Rightarrow> event \<Rightarrow> player_manager \<Rightarrow> player_manager" where
  "step b (CallLoad url) s = load b url s"
| "step b CallStop s = stop s"
| "step b CallDestroy s = destroy s"
| "step b (Advance d) s = s\<lparr>clock := clock s + d\<rparr>"
| "step b (Timer i) s = timeoutFires i s"
| "step b (HlsError f t d) s = hlsOnError f t d s"
| "step b HlsMediaAttached s = hlsMediaAttached s"
| "step b HlsManifestParsed s = hlsManifestParsed s"
| "step b (DashError m) s = dashOnError m s"
| "step b DashStreamInitialized s = dashStreamInitialized s"
| "step b DashPlaybackStarted s = dashPlaybackStarted s"
| "step b (NativeLoaded i) s = nativeLoaded i s"
| "step b (NativeError i) s = nativeError i s"
| "step b (HlsNativeLoaded i) s = hlsNativeLoaded i s"
| "step b (HlsNativeError i) s = hlsNativeError i s"

fun run :: "browser \<Rightarrow> event list \<Rightarrow> player_manager \<Rightarrow> player_manager" where
  "run b [] s = s"
| "run b (e # es) s = run b es (step b e s)"

text \<open>An adapter is attached to the video element while its engine exists, or while the
  element has a source that the adapter gave it.\<close>

fun attached :: "player_manager \<Rightarrow> stream_type \<Rightarrow> bool" where
  "attached s Hls =
     (hls s \<noteq> None \<or> (case videoSrc s of Some (a, u) \<Rightarrow> a = Hls \<and> u \<noteq> [] | None \<Rightarrow> False))"
| "attached s Dash = (player s \<noteq> None)"
| "attached s Native =
     (case videoSrc s of Some (a, u) \<Rightarrow> a = Native \<and> u \<noteq> [] | None \<Rightarrow> False)"

subsection \<open>Invariants\<close>

text \<open>
  Two properties of every state the manager reaches: only the current adapter is
  attached; and every pending timer is the one stored in \<^verbatim>\<open>loadTimeoutId\<close>, whose id
  is positive and below the next one to be given out.
\<close>

definition attached_inv :: "player_manager \<Rightarrow> bool" where
  "attached_inv s = (\<forall>k. attached s k \<longrightarrow> currentAdapter s = Some k)"

definition timers_inv :: "player_manager \<Rightarrow> bool" where
  "timers_inv s =
     ((\<forall>t \<in> set (timers s). loadTimeoutId s = Some (fst t)) \<and>
      (\<forall>i. loadTimeoutId s = Some i \<longrightarrow> 0 < i \<and> i < nextTimer s) \<and>
      0 < nextTimer s)"

section \<open>Facts about strings\<close>

lemma startsWith_prefix: "startsWith s m \<longleftrightarrow> prefix m s"
  by (induction s m rule: startsWith.induct) auto

lemma includes_sublist: "includes_str s m \<longleftrightarrow> sublist m s"
proof (induction s)
  case Nil
  show ?case by simp
next
  case (Cons c cs)
  then show ?case
    by (simp add: startsWith_prefix sublist_Cons_right)
qed

lemma includes_append: "includes_str (p @ m @ q) m"
  by (simp add: includes_sublist)

lemma includes_toLowerCase:
  "includes_str url m \<Longrightarrow> includes_str (toLowerCase url) (toLowerCase m)"
  by (simp add: includes_sublist toLowerCase_def map_mono_sublist)

section \<open>Facts about the recorder\<close>







section \<open>Facts about file names\<close>

lemma length_pad: "length (pad w n) = w"
  by (induction w arbitrary: n) simp_all

lemma digit_in: "digit n \<in> set ''0123456789''"
proof -
  have "n mod 10 < length ''0123456789''" by simp
  then show ?thesis unfolding digit_def by (rule nth_mem)
qed

lemma digit_neq: "digit n \<noteq> CHR '':''" "digit n \<noteq> CHR ''.''" "digit n \<noteq> CHR ''T''"
  using digit_in [of n] by auto

lemma of_char_digit: "(of_char (digit n) :: nat) = 48 + n mod 10"
proof -
  define k where "k = n mod 10"
  have "k < 10" by (simp add: k_def)
  then have "k = 0 \<or> k = 1 \<or> k = 2 \<or> k = 3 \<or> k = 4 \<or> k = 5 \<or> k = 6 \<or> k = 7 \<or> k = 8 \<or> k = 9"
    by arith
  then have "(of_char (''0123456789'' ! k) :: nat) = 48 + k"
    by (elim disjE) simp_all
  then show ?thesis by (simp add: digit_def k_def)
qed

lemma digit_eq_iff: "digit n = digit m \<longleftrightarrow> n mod 10 = m mod 10"
proof
  assume "digit n = digit m"
  then have "(of_char (digit n) :: nat) = of_char (digit m)" by simp
  then show "n mod 10 = m mod 10" by (simp add: of_char_digit)
next
  assume "n mod 10 = m mod 10"
  then show "digit n = digit m" by (simp add: digit_def)
qed

lemma pad2: "pad 2 n = [digit (n div 10), digit n]"
proof -
  have e: "(2::nat) = Suc (Suc 0)" by simp
  show ?thesis unfolding e by simp
qed

lemma pad4: "pad 4 n = [digit (n div 1000), digit (n div 100), digit (n div 10), digit n]"
proof -
  have e: "(4::nat) = Suc (Suc (Suc (Suc 0)))" by simp
  have "n div 10 div 10 = n div 100" "n div 10 div 10 div 10 = n div 1000"
    by (simp_all add: div_mult2_eq [symmetric])
  then show ?thesis unfolding e by simp
qed

lemma toISOString_digits:
  "year d \<le> 9999 \<Longrightarrow>
   toISOString d =
     [digit (year d div 1000), digit (year d div 100), digit (year d div 10), digit (year d),
      CHR ''-'', digit (month d div 10), digit (month d),
      CHR ''-'', digit (day d div 10), digit (day d),
      CHR ''T'', digit (hours d div 10), digit (hours d),
      CHR '':'', digit (minutes d div 10), digit (minutes d),
      CHR '':'', digit (seconds d div 10), digit (seconds d), CHR ''.''] @
     pad 3 (milliseconds d) @ ''Z''"
  by (simp add: toISOString_def pad4 pad2)

lemma timestampOf_shape:
  "year d \<le> 9999 \<Longrightarrow>
   timestampOf d =
     pad 4 (year d) @ ''-'' @ pad 2 (month d) @ ''-'' @ pad 2 (day d) @ ''_'' @
     pad 2 (hours d) @ ''-'' @ pad 2 (minutes d) @ ''-'' @ pad 2 (seconds d)"
  by (simp add: timestampOf_def toISOString_digits replaceColonDot_def pad4 pad2 digit_neq)

lemma sortsBefore_append:
  "length a = length b \<Longrightarrow>
   sortsBefore (a @ x) (b @ y) \<longleftrightarrow> sortsBefore a b \<or> (a = b \<and> sortsBefore x y)"
  by (induction a b rule: list_induct2) auto

lemma div10_less: "n < 10 ^ Suc w \<Longrightarrow> n div 10 < (10::nat) ^ w"
proof -
  assume "n < 10 ^ Suc w"
  then have "n < 10 ^ w * 10" by simp
  then show ?thesis by (rule less_mult_imp_div_less)
qed

lemma lex10:
  "r < 10 \<Longrightarrow> s < 10 \<Longrightarrow> ((10::nat) * a + r < 10 * b + s) \<longleftrightarrow> a < b \<or> (a = b \<and> r < s)"
  by arith

lemma less_div_mod10:
  "(n::nat) < m \<longleftrightarrow> n div 10 < m div 10 \<or> (n div 10 = m div 10 \<and> n mod 10 < m mod 10)"
proof -
  have "n = 10 * (n div 10) + n mod 10" "m = 10 * (m div 10) + m mod 10" by simp_all
  then have "n < m \<longleftrightarrow> 10 * (n div 10) + n mod 10 < 10 * (m div 10) + m mod 10" by simp
  also have "\<dots> \<longleftrightarrow> n div 10 < m div 10 \<or> (n div 10 = m div 10 \<and> n mod 10 < m mod 10)"
    by (rule lex10) simp_all
  finally show ?thesis .
qed

lemma eq_div_mod10: "(n::nat) = m \<longleftrightarrow> n div 10 = m div 10 \<and> n mod 10 = m mod 10"
  by (metis div_mult_mod_eq)

lemma pad_order:
  "n < 10 ^ w \<Longrightarrow> m < 10 ^ w \<Longrightarrow>
   (sortsBefore (pad w n) (pad w m) \<longleftrightarrow> n < m) \<and> (pad w n = pad w m \<longleftrightarrow> n = m)"
proof (induction w arbitrary: n m)
  case 0
  then show ?case by simp
next
  case (Suc w)
  note ih = Suc.IH [OF div10_less [OF Suc.prems(1)] div10_less [OF Suc.prems(2)]]
  have "sortsBefore (pad (Suc w) n) (pad (Suc w) m) \<longleftrightarrow>
        sortsBefore (pad w (n div 10)) (pad w (m div 10)) \<or>
        (pad w (n div 10) = pad w (m div 10) \<and> sortsBefore [digit n] [digit m])"
    by (simp add: sortsBefore_append length_pad)
  also have "\<dots> \<longleftrightarrow> n div 10 < m div 10 \<or> (n div 10 = m div 10 \<and> n mod 10 < m mod 10)"
    using ih by (simp add: of_char_digit)
  finally have a: "sortsBefore (pad (Suc w) n) (pad (Suc w) m) \<longleftrightarrow> n < m"
    using less_div_mod10 [of n m] by simp
  have "pad (Suc w) n = pad (Suc w) m \<longleftrightarrow>
        pad w (n div 10) = pad w (m div 10) \<and> digit n = digit m"
    by (simp add: length_pad)
  then have b: "pad (Suc w) n = pad (Suc w) m \<longleftrightarrow> n = m"
    using ih eq_div_mod10 [of n m] by (simp add: digit_eq_iff)
  show ?case using a b by blast
qed

lemma timestampOf_order:
  assumes "validDate a" "validDate b"
  shows "sortsBefore (timestampOf a) (timestampOf b) \<longleftrightarrow> earlier a b"
proof -
  have y: "year a < 10 ^ 4" "year b < 10 ^ 4"
    and mo: "month a < 10 ^ 2" "month b < 10 ^ 2"
    and da: "day a < 10 ^ 2" "day b < 10 ^ 2"
    and ho: "hours a < 10 ^ 2" "hours b < 10 ^ 2"
    and mi: "minutes a < 10 ^ 2" "minutes b < 10 ^ 2"
    and se: "seconds a < 10 ^ 2" "seconds b < 10 ^ 2"
    using assms by (simp_all add: validDate_def)
  have sa: "timestampOf a =
     pad 4 (year a) @ ''-'' @ pad 2 (month a) @ ''-'' @ pad 2 (day a) @ ''_'' @
     pad 2 (hours a) @ ''-'' @ pad 2 (minutes a) @ ''-'' @ pad 2 (seconds a)"
    using assms(1) by (simp add: timestampOf_shape validDate_def)
  have sb: "timestampOf b =
     pad 4 (year b) @ ''-'' @ pad 2 (month b) @ ''-'' @ pad 2 (day b) @ ''_'' @
     pad 2 (hours b) @ ''-'' @ pad 2 (minutes b) @ ''-'' @ pad 2 (seconds b)"
    using assms(2) by (simp add: timestampOf_shape validDate_def)
  have s6: "sortsBefore (pad 2 (seconds a)) (pad 2 (seconds b)) \<longleftrightarrow> seconds a < seconds b"
    using pad_order [OF se] by simp
  show ?thesis
    unfolding sa sb earlier_def
    using pad_order [OF y] pad_order [OF mo] pad_order [OF da] pad_order [OF ho]
      pad_order [OF mi] s6
    by (simp add: sortsBefore_append length_pad)
qed



lemma isSpace_underscore: "\<not> isSpace CHR ''_''"
  by (simp add: isSpace_def)

lemma replaceSpaceRuns_no_space: "\<forall>c \<in> set s. \<not> isSpace c \<Longrightarrow> replaceSpaceRuns s = s"
  by (induction s) simp_all

lemma dropWhile_run:
  "\<forall>c \<in> set w. isSpace c \<Longrightarrow> v = [] \<or> \<not> isSpace (hd v) \<Longrightarrow> dropWhile isSpace (w @ v) = v"
  by (induction w) (auto simp: dropWhile_eq_self_iff)

lemma replaceSpaceRuns_run:
  assumes "w \<noteq> []" "\<forall>c \<in> set w. isSpace c" "v = [] \<or> \<not> isSpace (hd v)"
  shows "replaceSpaceRuns (w @ v) = CHR ''_'' # replaceSpaceRuns v"
proof -
  obtain c cs where w: "w = c # cs" using assms(1) by (cases w) auto
  then have "replaceSpaceRuns (w @ v) = CHR ''_'' # replaceSpaceRuns (dropWhile isSpace (cs @ v))"
    using assms(2) by simp
  moreover have "dropWhile isSpace (cs @ v) = v"
    using assms(2,3) w by (intro dropWhile_run) auto
  ultimately show ?thesis by simp
qed

lemma replaceSpaceRuns_collapse:
  assumes "w \<noteq> []" "\<forall>c \<in> set w. isSpace c" "v = [] \<or> \<not> isSpace (hd v)"
  shows "u = [] \<or> \<not> isSpace (last u) \<Longrightarrow>
         replaceSpaceRuns (u @ w @ v) = replaceSpaceRuns u @ ''_'' @ replaceSpaceRuns v"
proof (induction u rule: replaceSpaceRuns.induct)
  case 1
  show ?case using replaceSpaceRuns_run [OF assms] by simp
next
  case (2 c cs)
  show ?case
  proof (cases "isSpace c")
    case False
    then have "cs = [] \<or> \<not> isSpace (last cs)" using "2.prems" by (auto split: if_splits)
    then show ?thesis using False "2.IH"(2) by simp
  next
    case True
    then have ne: "cs \<noteq> []" and l: "\<not> isSpace (last cs)"
      using "2.prems" by (auto split: if_splits)
    then have ex: "\<exists>x \<in> set cs. \<not> isSpace x" using last_in_set by blast
    then have d: "dropWhile isSpace (cs @ w @ v) = dropWhile isSpace cs @ w @ v"
      by (auto simp: dropWhile_append1)
    have dn: "dropWhile isSpace cs \<noteq> []" using ex by (simp add: dropWhile_eq_Nil_conv)
    have "last (dropWhile isSpace cs) = last cs"
      using dn by (metis last_appendR takeWhile_dropWhile_id)
    then have "dropWhile isSpace cs = [] \<or> \<not> isSpace (last (dropWhile isSpace cs))"
      using l by simp
    then show ?thesis using True "2.IH"(1) d by simp
  qed
qed

lemma set_replaceSpaceRuns:
  "set (replaceSpaceRuns s) \<subseteq> insert CHR ''_'' {c \<in> set s. \<not> isSpace c}"
proof (induction s rule: replaceSpaceRuns.induct)
  case 1
  show ?case by simp
next
  case (2 c cs)
  show ?case
  proof (cases "isSpace c")
    case True
    have "set (dropWhile isSpace cs) \<subseteq> set cs"
      using set_dropWhileD by fastforce
    then show ?thesis using True "2.IH"(1) by auto
  next
    case False
    then show ?thesis using "2.IH"(2) by auto
  qed
qed

lemma safeName_chars:
  assumes "c \<in> set (safeName n)"
  shows "c \<notin> set reservedChars \<and> \<not> isSpace c"
proof -
  have "c \<in> set (replaceSpaceRuns (removeReserved n))"
    using assms unfolding safeName_def by (rule in_set_takeD)
  then have "c = CHR ''_'' \<or> (c \<in> set (removeReserved n) \<and> \<not> isSpace c)"
    using set_replaceSpaceRuns [of "removeReserved n"] by auto
  moreover have "CHR ''_'' \<notin> set reservedChars" by (simp add: reservedChars_def)
  ultimately show ?thesis
    using isSpace_underscore by (auto simp: removeReserved_def)
qed

section \<open>Facts about the quality selector\<close>

lemma mset_insertBy: "mset (insertBy cmp x xs) = add_mset x (mset xs)"
  by (induction xs) simp_all

lemma mset_sortBy: "mset (sortBy cmp xs) = mset xs"
  by (induction xs) (simp_all add: sortBy_def mset_insertBy)

lemma set_insertBy: "set (insertBy cmp x xs) = insert x (set xs)"
  by (induction xs) auto

lemma sorted_insertBy_byHeightDesc:
  "sorted_wrt (\<lambda>a b. orZero (height b) \<le> orZero (height a)) xs \<Longrightarrow>
   sorted_wrt (\<lambda>a b. orZero (height b) \<le> orZero (height a)) (insertBy byHeightDesc x xs)"
proof (induction xs)
  case Nil
  show ?case by simp
next
  case (Cons y ys)
  show ?case
  proof (cases "byHeightDesc x y \<le> 0")
    case True
    then have "orZero (height y) \<le> orZero (height x)"
      by (simp add: byHeightDesc_def)
    with Cons.prems True show ?thesis by fastforce
  next
    case False
    then have "orZero (height x) \<le> orZero (height y)"
      by (simp add: byHeightDesc_def)
    with Cons False show ?thesis by (auto simp: set_insertBy)
  qed
qed

lemma sorted_sortBy_byHeightDesc:
  "sorted_wrt (\<lambda>a b. orZero (height b) \<le> orZero (height a)) (sortBy byHeightDesc xs)"
proof (induction xs)
  case Nil
  show ?case by (simp add: sortBy_def)
next
  case (Cons x xs)
  then show ?case
    using sorted_insertBy_byHeightDesc [of "sortBy byHeightDesc xs" x]
    by (simp add: sortBy_def)
qed

lemma filter_insertBy_byHeightDesc:
  "sorted_wrt (\<lambda>a b. orZero (height b) \<le> orZero (height a)) xs \<Longrightarrow>
   filter (\<lambda>l. orZero (height l) = h) (insertBy byHeightDesc x xs) =
     (if orZero (height x) = h then x # filter (\<lambda>l. orZero (height l) = h) xs
      else filter (\<lambda>l. orZero (height l) = h) xs)"
proof (induction xs)
  case Nil
  show ?case by simp
next
  case (Cons y ys)
  show ?case
  proof (cases "byHeightDesc x y \<le> 0")
    case True
    then show ?thesis by simp
  next
    case False
    then have lt: "orZero (height x) < orZero (height y)"
      by (simp add: byHeightDesc_def)
    from Cons have ih: "filter (\<lambda>l. orZero (height l) = h) (insertBy byHeightDesc x ys) =
        (if orZero (height x) = h then x # filter (\<lambda>l. orZero (height l) = h) ys
         else filter (\<lambda>l. orZero (height l) = h) ys)"
      by simp
    have none: "orZero (height y) = h \<Longrightarrow> orZero (height x) = h \<Longrightarrow> False"
      using lt by simp
    show ?thesis using False ih none by auto
  qed
qed

lemma filter_sortBy_byHeightDesc:
  "filter (\<lambda>l. orZero (height l) = h) (sortBy byHeightDesc xs) =
   filter (\<lambda>l. orZero (height l) = h) xs"
proof (induction xs)
  case Nil
  show ?case by (simp add: sortBy_def)
next
  case (Cons x xs)
  have "filter (\<lambda>l. orZero (height l) = h) (sortBy byHeightDesc (x # xs)) =
        filter (\<lambda>l. orZero (height l) = h) (insertBy byHeightDesc x (sortBy byHeightDesc xs))"
    by (simp add: sortBy_def)
  also have "\<dots> = (if orZero (height x) = h
                    then x # filter (\<lambda>l. orZero (height l) = h) (sortBy byHeightDesc xs)
                    else filter (\<lambda>l. orZero (height l) = h) (sortBy byHeightDesc xs))"
    by (rule filter_insertBy_byHeightDesc [OF sorted_sortBy_byHeightDesc])
  finally show ?case using Cons by simp
qed

section \<open>Facts about the player manager\<close>

subsection \<open>What each operation changes\<close>

declare adapter_destroy.simps [simp del]

lemma emit_fields [simp]:
  "currentAdapter (emit e s) = currentAdapter s"
  "currentUrl (emit e s) = currentUrl s"
  "loadTimeoutId (emit e s) = loadTimeoutId s"
  "pm_onError (emit e s) = pm_onError s"
  "pm_onStateChange (emit e s) = pm_onStateChange s"
  "pm_onLevelsAvailable (emit e s) = pm_onLevelsAvailable s"
  "adapterEvents (emit e s) = adapterEvents s"
  "hls (emit e s) = hls s"
  "player (emit e s) = player s"
  "videoSrc (emit e s) = videoSrc s"
  "timers (emit e s) = timers s"
  "nextTimer (emit e s) = nextTimer s"
  "clock (emit e s) = clock s"
  "pending (emit e s) = pending s"
  "trace (emit e s) = trace s @ [e]"
  by (simp_all add: emit_def)

lemma cancelLoadTimeout_fields [simp]:
  "currentAdapter (cancelLoadTimeout s) = currentAdapter s"
  "currentUrl (cancelLoadTimeout s) = currentUrl s"
  "pm_onError (cancelLoadTimeout s) = pm_onError s"
  "pm_onStateChange (cancelLoadTimeout s) = pm_onStateChange s"
  "pm_onLevelsAvailable (cancelLoadTimeout s) = pm_onLevelsAvailable s"
  "adapterEvents (cancelLoadTimeout s) = adapterEvents s"
  "hls (cancelLoadTimeout s) = hls s"
  "player (cancelLoadTimeout s) = player s"
  "videoSrc (cancelLoadTimeout s) = videoSrc s"
  "nextTimer (cancelLoadTimeout s) = nextTimer s"
  "clock (cancelLoadTimeout s) = clock s"
  "pending (cancelLoadTimeout s) = pending s"
  by (simp_all add: cancelLoadTimeout_def clearTimeout_def split: option.splits)

lemma cancelLoadTimeout_timers:
  "loadTimeoutId (cancelLoadTimeout s) =
     (case loadTimeoutId s of None \<Rightarrow> None | Some i \<Rightarrow> if i \<noteq> 0 then None else Some i)"
  "timers (cancelLoadTimeout s) =
     (case loadTimeoutId s of None \<Rightarrow> timers s
      | Some i \<Rightarrow> if i \<noteq> 0 then filter (\<lambda>t. fst t \<noteq> i) (timers s) else timers s)"
  "trace (cancelLoadTimeout s) =
     (case loadTimeoutId s of None \<Rightarrow> trace s
      | Some i \<Rightarrow> if i \<noteq> 0 then trace s @ [ClearTimeout i] else trace s)"
  by (simp_all add: cancelLoadTimeout_def clearTimeout_def split: option.splits)

lemma call_onError_pm_fields [simp]:
  "currentAdapter (call_onError_pm e s) = currentAdapter s"
  "currentUrl (call_onError_pm e s) = currentUrl s"
  "loadTimeoutId (call_onError_pm e s) = loadTimeoutId s"
  "pm_onError (call_onError_pm e s) = pm_onError s"
  "pm_onStateChange (call_onError_pm e s) = pm_onStateChange s"
  "pm_onLevelsAvailable (call_onError_pm e s) = pm_onLevelsAvailable s"
  "adapterEvents (call_onError_pm e s) = adapterEvents s"
  "hls (call_onError_pm e s) = hls s"
  "player (call_onError_pm e s) = player s"
  "videoSrc (call_onError_pm e s) = videoSrc s"
  "timers (call_onError_pm e s) = timers s"
  "nextTimer (call_onError_pm e s) = nextTimer s"
  "clock (call_onError_pm e s) = clock s"
  "pending (call_onError_pm e s) = pending s"
  "trace (call_onError_pm e s) = trace s @ (if pm_onError s then [CallOnError e] else [])"
  by (simp_all add: call_onError_pm_def)

lemma raceRejected_fields [simp]:
  "currentAdapter (raceRejected i e s) = currentAdapter s"
  "currentUrl (raceRejected i e s) = currentUrl s"
  "loadTimeoutId (raceRejected i e s) = loadTimeoutId s"
  "pm_onError (raceRejected i e s) = pm_onError s"
  "pm_onStateChange (raceRejected i e s) = pm_onStateChange s"
  "pm_onLevelsAvailable (raceRejected i e s) = pm_onLevelsAvailable s"
  "adapterEvents (raceRejected i e s) = adapterEvents s"
  "hls (raceRejected i e s) = hls s"
  "player (raceRejected i e s) = player s"
  "videoSrc (raceRejected i e s) = videoSrc s"
  "timers (raceRejected i e s) = timers s"
  "nextTimer (raceRejected i e s) = nextTimer s"
  "clock (raceRejected i e s) = clock s"
  by (simp_all add: raceRejected_def)

lemma raceRejected_trace:
  "trace (raceRejected i e s) =
     (if i \<in> set (pending s)
      then trace s @ (if pm_onError s then [CallOnError e] else []) @ [Returned i False]
      else trace s)"
  "pending (raceRejected i e s) = removeAll i (pending s)"
  by (simp_all add: raceRejected_def)

lemma raceResolved_fields [simp]:
  "currentAdapter (raceResolved i s) = currentAdapter s"
  "currentUrl (raceResolved i s) = currentUrl s"
  "pm_onError (raceResolved i s) = pm_onError s"
  "pm_onStateChange (raceResolved i s) = pm_onStateChange s"
  "pm_onLevelsAvailable (raceResolved i s) = pm_onLevelsAvailable s"
  "adapterEvents (raceResolved i s) = adapterEvents s"
  "hls (raceResolved i s) = hls s"
  "player (raceResolved i s) = player s"
  "videoSrc (raceResolved i s) = videoSrc s"
  "nextTimer (raceResolved i s) = nextTimer s"
  "clock (raceResolved i s) = clock s"
  "pending (raceResolved i s) = removeAll i (pending s)"
  by (simp_all add: raceResolved_def)

lemma adapter_onError_fields [simp]:
  "currentAdapter (adapter_onError a e s) = currentAdapter s"
  "currentUrl (adapter_onError a e s) = currentUrl s"
  "pm_onError (adapter_onError a e s) = pm_onError s"
  "pm_onStateChange (adapter_onError a e s) = pm_onStateChange s"
  "pm_onLevelsAvailable (adapter_onError a e s) = pm_onLevelsAvailable s"
  "adapterEvents (adapter_onError a e s) = adapterEvents s"
  "hls (adapter_onError a e s) = hls s"
  "player (adapter_onError a e s) = player s"
  "videoSrc (adapter_onError a e s) = videoSrc s"
  "nextTimer (adapter_onError a e s) = nextTimer s"
  "clock (adapter_onError a e s) = clock s"
  "pending (adapter_onError a e s) = pending s"
  by (simp_all add: adapter_onError_def onAdapterError_def)

lemma adapter_destroy_fields [simp]:
  "currentAdapter (adapter_destroy a s) = currentAdapter s"
  "currentUrl (adapter_destroy a s) = currentUrl s"
  "loadTimeoutId (adapter_destroy a s) = loadTimeoutId s"
  "pm_onError (adapter_destroy a s) = pm_onError s"
  "pm_onStateChange (adapter_destroy a s) = pm_onStateChange s"
  "pm_onLevelsAvailable (adapter_destroy a s) = pm_onLevelsAvailable s"
  "adapterEvents (adapter_destroy a s) = adapterEvents s"
  "timers (adapter_destroy a s) = timers s"
  "nextTimer (adapter_destroy a s) = nextTimer s"
  "clock (adapter_destroy a s) = clock s"
  "pending (adapter_destroy a s) = pending s"
  by (cases a; simp add: adapter_destroy.simps split: option.splits)+

lemma adapter_destroy_engines:
  "hls (adapter_destroy a s) = (if a = Hls then None else hls s)"
  "player (adapter_destroy a s) = (if a = Dash then None else player s)"
  "videoSrc (adapter_destroy a s) = (if a = Native then Some (Native, []) else videoSrc s)"
  by (cases a; simp add: adapter_destroy.simps split: option.splits)+

lemma stop_fields [simp]:
  "currentAdapter (stop s) = None"
  "currentUrl (stop s) = None"
  "videoSrc (stop s) = None"
  "pm_onError (stop s) = pm_onError s"
  "pm_onStateChange (stop s) = pm_onStateChange s"
  "pm_onLevelsAvailable (stop s) = pm_onLevelsAvailable s"
  "adapterEvents (stop s) = adapterEvents s"
  "nextTimer (stop s) = nextTimer s"
  "clock (stop s) = clock s"
  "pending (stop s) = pending s"
  by (simp_all add: stop_def Let_def split: option.splits)

lemma stop_timers:
  "loadTimeoutId (stop s) = loadTimeoutId (cancelLoadTimeout s)"
  "timers (stop s) = timers (cancelLoadTimeout s)"
  by (simp_all add: stop_def Let_def split: option.splits)

lemma stop_engines:
  "hls (stop s) = (if currentAdapter s = Some Hls then None else hls s)"
  "player (stop s) = (if currentAdapter s = Some Dash then None else player s)"
  by (simp_all add: stop_def Let_def adapter_destroy_engines split: option.splits)


subsection \<open>Only the current adapter is attached\<close>

lemma attached_cong:
  "hls s' = hls s \<Longrightarrow> player s' = player s \<Longrightarrow> videoSrc s' = videoSrc s \<Longrightarrow>
   attached s' k = attached s k"
  by (cases k) simp_all

lemma attached_inv_cong:
  "hls s' = hls s \<Longrightarrow> player s' = player s \<Longrightarrow> videoSrc s' = videoSrc s \<Longrightarrow>
   currentAdapter s' = currentAdapter s \<Longrightarrow> attached_inv s \<Longrightarrow> attached_inv s'"
  unfolding attached_inv_def using attached_cong by metis

lemma attached_inv_engines:
  assumes "attached_inv s"
  shows "currentAdapter s \<noteq> Some Hls \<Longrightarrow> hls s = None"
    and "currentAdapter s \<noteq> Some Dash \<Longrightarrow> player s = None"
proof -
  show "currentAdapter s \<noteq> Some Hls \<Longrightarrow> hls s = None"
    using assms [unfolded attached_inv_def, rule_format, of Hls] by (cases "hls s") auto
  show "currentAdapter s \<noteq> Some Dash \<Longrightarrow> player s = None"
    using assms [unfolded attached_inv_def, rule_format, of Dash] by (cases "player s") auto
qed

lemma stop_detaches:
  assumes "attached_inv s"
  shows "\<not> attached (stop s) k"
proof (cases k)
  case Hls
  then show ?thesis
    using attached_inv_engines(1) [OF assms] by (simp add: stop_engines)
next
  case Dash
  then show ?thesis
    using attached_inv_engines(2) [OF assms] by (simp add: stop_engines)
next
  case Native
  then show ?thesis by simp
qed

lemma attached_inv_stop: "attached_inv s \<Longrightarrow> attached_inv (stop s)"
  using stop_detaches unfolding attached_inv_def by blast

lemma setLoadTimeout_fields [simp]:
  "currentAdapter (setLoadTimeout s) = currentAdapter s"
  "currentUrl (setLoadTimeout s) = currentUrl s"
  "loadTimeoutId (setLoadTimeout s) = Some (nextTimer s)"
  "pm_onError (setLoadTimeout s) = pm_onError s"
  "adapterEvents (setLoadTimeout s) = adapterEvents s"
  "hls (setLoadTimeout s) = hls s"
  "player (setLoadTimeout s) = player s"
  "videoSrc (setLoadTimeout s) = videoSrc s"
  "timers (setLoadTimeout s) = timers s @ [(nextTimer s, clock s + 30000)]"
  "nextTimer (setLoadTimeout s) = Suc (nextTimer s)"
  "clock (setLoadTimeout s) = clock s"
  "pending (setLoadTimeout s) = pending s @ [nextTimer s]"
  "trace (setLoadTimeout s) = trace s @ [SetTimeout (nextTimer s) 30000]"
  by (simp_all add: setLoadTimeout_def Let_def)

lemma adapter_load_fields [simp]:
  "currentAdapter (snd (adapter_load b a i url s)) = currentAdapter s"
  "currentUrl (snd (adapter_load b a i url s)) = currentUrl s"
  "loadTimeoutId (snd (adapter_load b a i url s)) = loadTimeoutId s"
  "pm_onError (snd (adapter_load b a i url s)) = pm_onError s"
  "adapterEvents (snd (adapter_load b a i url s)) = adapterEvents s"
  "timers (snd (adapter_load b a i url s)) = timers s"
  "nextTimer (snd (adapter_load b a i url s)) = nextTimer s"
  "clock (snd (adapter_load b a i url s)) = clock s"
  "pending (snd (adapter_load b a i url s)) = pending s"
  by (cases a;
      simp add: HlsAdapter_load_def DashAdapter_load_def NativeAdapter_load_def Let_def
        split: option.splits dash_fault.splits)+

lemma adapter_load_attaches:
  assumes "\<forall>k. \<not> attached s k"
  shows "attached (snd (adapter_load b a i url s)) k \<Longrightarrow> k = a"
  using assms [rule_format, of Hls] assms [rule_format, of Dash] assms [rule_format, of Native]
  by (cases a; cases k;
      simp add: adapter_destroy.simps HlsAdapter_load_def DashAdapter_load_def NativeAdapter_load_def Let_def
        split: option.splits dash_fault.splits if_splits prod.splits)

lemma adapter_load_trace:
  "\<exists>post. trace (snd (adapter_load b a i url s)) = trace s @ post \<and>
      (\<forall>k u. Load k u \<notin> set post) \<and> (\<forall>k. Destroy k \<notin> set post)"
  by (cases a;
      simp add: adapter_destroy.simps HlsAdapter_load_def DashAdapter_load_def NativeAdapter_load_def Let_def
        split: option.splits dash_fault.splits)


lemma beginLoad_unfold:
  "beginLoad b url s =
     (let k = detectStreamType url;
          s1 = s\<lparr>currentAdapter := Some k, currentUrl := Some url,
                 adapterEvents := (adapterEvents s)(k := True)\<rparr>;
          r = adapter_load b k (nextTimer s) url (emit (Load k url) s1);
          s3 = setLoadTimeout (snd r)
      in case fst r of None \<Rightarrow> s3 | Some e \<Rightarrow> raceRejected (nextTimer s) e s3)"
  by (auto simp: beginLoad_def setupAdapterEvents_def Let_def split: prod.splits option.splits)

lemma beginLoad_fields [simp]:
  "currentAdapter (beginLoad b url s) = Some (detectStreamType url)"
  "currentUrl (beginLoad b url s) = Some url"
  "loadTimeoutId (beginLoad b url s) = Some (nextTimer s)"
  "pm_onError (beginLoad b url s) = pm_onError s"
  "adapterEvents (beginLoad b url s) = (adapterEvents s)(detectStreamType url := True)"
  "timers (beginLoad b url s) = timers s @ [(nextTimer s, clock s + 30000)]"
  "nextTimer (beginLoad b url s) = Suc (nextTimer s)"
  "clock (beginLoad b url s) = clock s"
  by (simp_all add: beginLoad_unfold Let_def split: option.splits)

lemma beginLoad_attached:
  assumes "\<forall>k. \<not> attached s k"
  shows "attached (beginLoad b url s) k \<Longrightarrow> k = detectStreamType url"
proof -
  let ?k = "detectStreamType url"
  let ?s1 = "emit (Load ?k url)
      (s\<lparr>currentAdapter := Some ?k, currentUrl := Some url,
         adapterEvents := (adapterEvents s)(?k := True)\<rparr>)"
  let ?r = "adapter_load b ?k (nextTimer s) url ?s1"
  assume a: "attached (beginLoad b url s) k"
  have "attached (beginLoad b url s) k = attached (snd ?r) k"
    by (rule attached_cong) (simp_all add: beginLoad_unfold Let_def split: option.splits)
  then have "attached (snd ?r) k" using a by simp
  moreover have "\<forall>k. \<not> attached ?s1 k"
    using assms attached_cong [of ?s1 s] by simp
  ultimately show ?thesis by (rule adapter_load_attaches [rotated])
qed

lemma attached_inv_load: "attached_inv s \<Longrightarrow> attached_inv (load b url s)"
  unfolding load_def attached_inv_def [of "beginLoad b url (stop s)"]
  using beginLoad_attached [of "stop s"] stop_detaches [of s] by auto

lemma attached_inv_timeoutFires:
  assumes "attached_inv s"
  shows "attached_inv (timeoutFires i s)"
  by (rule attached_inv_cong [OF _ _ _ _ assms])
    (simp_all add: timeoutFires_def split: option.splits)

lemma attached_inv_hlsOnError: "attached_inv s \<Longrightarrow> attached_inv (hlsOnError f t d s)"
proof -
  assume inv: "attached_inv s"
  have c: "currentAdapter (hlsOnError f t d s) = currentAdapter s"
    by (simp add: hlsOnError_def Let_def split: option.splits error_type.splits)
  have p: "player (hlsOnError f t d s) = player s"
    by (simp add: hlsOnError_def Let_def adapter_destroy_engines
        split: option.splits error_type.splits)
  have v: "videoSrc (hlsOnError f t d s) = videoSrc s"
    by (simp add: hlsOnError_def Let_def adapter_destroy_engines
        split: option.splits error_type.splits)
  have h: "hls (hlsOnError f t d s) = hls s \<or> hls (hlsOnError f t d s) = None"
    by (simp add: hlsOnError_def Let_def adapter_destroy_engines
        split: option.splits error_type.splits)
  have "attached (hlsOnError f t d s) k \<Longrightarrow> attached s k" for k
    using p v h by (cases k) auto
  then show ?thesis using inv c unfolding attached_inv_def by auto
qed

lemma attached_inv_hlsManifestParsed: "attached_inv s \<Longrightarrow> attached_inv (hlsManifestParsed s)"
proof -
  assume inv: "attached_inv s"
  have c: "currentAdapter (hlsManifestParsed s) = currentAdapter s"
    and p: "player (hlsManifestParsed s) = player s"
    and v: "videoSrc (hlsManifestParsed s) = videoSrc s"
    and h: "hls (hlsManifestParsed s) = None \<longleftrightarrow> hls s = None"
    by (simp_all add: hlsManifestParsed_def split: option.splits)
  have "attached (hlsManifestParsed s) k = attached s k" for k
    using p v h by (cases k) auto
  then show ?thesis using inv c unfolding attached_inv_def by auto
qed

lemma attached_inv_destroy: "attached_inv s \<Longrightarrow> attached_inv (destroy s)"
proof -
  assume "attached_inv s"
  then have n: "\<not> attached (stop s) k" for k by (rule stop_detaches)
  have "hls (destroy s) = None" "player (destroy s) = None"
    "videoSrc (destroy s) = Some (Native, [])"
    by (simp_all add: destroy_def adapter_destroy_engines)
  then have "\<not> attached (destroy s) k" for k by (cases k) simp_all
  then show ?thesis unfolding attached_inv_def by simp
qed

lemma attached_inv_others:
  assumes "attached_inv s"
  shows "attached_inv (s\<lparr>clock := clock s + d\<rparr>)"
    and "attached_inv (hlsMediaAttached s)"
    and "attached_inv (dashOnError m s)"
    and "attached_inv (dashStreamInitialized s)"
    and "attached_inv (dashPlaybackStarted s)"
    and "attached_inv (nativeLoaded i s)"
    and "attached_inv (nativeError i s)"
    and "attached_inv (hlsNativeLoaded i s)"
    and "attached_inv (hlsNativeError i s)"
proof -
  show "attached_inv (s\<lparr>clock := clock s + d\<rparr>)"
    by (rule attached_inv_cong [OF _ _ _ _ assms]) simp_all
  show "attached_inv (hlsMediaAttached s)"
    by (rule attached_inv_cong [OF _ _ _ _ assms])
      (simp_all add: hlsMediaAttached_def split: option.splits)
  show "attached_inv (dashOnError m s)"
    by (rule attached_inv_cong [OF _ _ _ _ assms])
      (simp_all add: dashOnError_def split: option.splits)
  show "attached_inv (dashStreamInitialized s)"
    by (rule attached_inv_cong [OF _ _ _ _ assms])
      (simp_all add: dashStreamInitialized_def split: option.splits)
  show "attached_inv (dashPlaybackStarted s)"
    by (rule attached_inv_cong [OF _ _ _ _ assms])
      (simp_all add: dashPlaybackStarted_def split: option.splits)
  show "attached_inv (nativeLoaded i s)"
    by (rule attached_inv_cong [OF _ _ _ _ assms]) (simp_all add: nativeLoaded_def)
  show "attached_inv (nativeError i s)"
    by (rule attached_inv_cong [OF _ _ _ _ assms]) (simp_all add: nativeError_def)
  show "attached_inv (hlsNativeLoaded i s)"
    by (rule attached_inv_cong [OF _ _ _ _ assms]) (simp_all add: hlsNativeLoaded_def)
  show "attached_inv (hlsNativeError i s)"
    by (rule attached_inv_cong [OF _ _ _ _ assms]) (simp_all add: hlsNativeError_def)
qed

lemma attached_inv_step: "attached_inv s \<Longrightarrow> attached_inv (step b ev s)"
  by (cases ev)
    (simp_all add: attached_inv_load attached_inv_stop attached_inv_destroy
      attached_inv_timeoutFires attached_inv_hlsOnError attached_inv_hlsManifestParsed
      attached_inv_others)

lemma attached_inv_run: "attached_inv s \<Longrightarrow> attached_inv (run b evs s)"
  by (induction evs arbitrary: s) (simp_all add: attached_inv_step)

lemma attached_inv_initial: "attached_inv (initial x y z)"
proof -
  have "\<not> attached (initial x y z) k" for k
    by (cases k) (simp_all add: initial_def)
  then show ?thesis by (simp add: attached_inv_def)
qed


subsection \<open>Timers\<close>

lemma timers_inv_cancel:
  assumes "timers_inv s"
  shows "timers (cancelLoadTimeout s) = []" "loadTimeoutId (cancelLoadTimeout s) = None"
proof -
  show "loadTimeoutId (cancelLoadTimeout s) = None"
    using assms by (auto simp: timers_inv_def cancelLoadTimeout_timers split: option.splits)
  show "timers (cancelLoadTimeout s) = []"
  proof (cases "loadTimeoutId s")
    case None
    then have "timers s = []" using assms by (cases "timers s") (auto simp: timers_inv_def)
    then show ?thesis using None by (simp add: cancelLoadTimeout_timers)
  next
    case (Some i)
    then have "\<forall>t \<in> set (timers s). fst t = i" and "i \<noteq> 0"
      using assms by (auto simp: timers_inv_def)
    then have "filter (\<lambda>t. fst t \<noteq> i) (timers s) = []" and "i \<noteq> 0"
      by (simp_all add: filter_empty_conv)
    then show ?thesis using Some by (simp add: cancelLoadTimeout_timers)
  qed
qed

lemma cancel_shrinks:
  "set (timers (cancelLoadTimeout s)) \<subseteq> set (timers s)"
  by (auto simp: cancelLoadTimeout_timers split: option.splits)

lemma raceResolved_timers:
  "timers (raceResolved i s) =
     (if i \<in> set (pending s) then timers (cancelLoadTimeout s) else timers s)"
  "loadTimeoutId (raceResolved i s) =
     (if i \<in> set (pending s) then loadTimeoutId (cancelLoadTimeout s) else loadTimeoutId s)"
  by (simp_all add: raceResolved_def cancelLoadTimeout_timers split: option.splits)

lemma adapter_onError_timers:
  "timers (adapter_onError a e s) =
     (if adapterEvents s a \<and> fatal e then timers (cancelLoadTimeout s) else timers s)"
  "loadTimeoutId (adapter_onError a e s) =
     (if adapterEvents s a \<and> fatal e then loadTimeoutId (cancelLoadTimeout s)
      else loadTimeoutId s)"
  by (simp_all add: adapter_onError_def onAdapterError_def)

lemma stop_timers_inv:
  assumes "timers_inv s"
  shows "timers (stop s) = []" "loadTimeoutId (stop s) = None"
  using timers_inv_cancel [OF assms] by (simp_all add: stop_timers)

lemma load_timers:
  "timers (load b url s) = timers (stop s) @ [(nextTimer s, clock s + 30000)]"
  "loadTimeoutId (load b url s) = Some (nextTimer s)"
  "nextTimer (load b url s) = Suc (nextTimer s)"
  "clock (load b url s) = clock s"
  by (simp_all add: load_def)

lemma timeoutFires_timers:
  "set (timers (timeoutFires i s)) \<subseteq> set (timers s)"
  "loadTimeoutId (timeoutFires i s) = loadTimeoutId s"
  "nextTimer (timeoutFires i s) = nextTimer s"
  by (auto simp: timeoutFires_def split: option.splits)

lemma hlsOnError_timers:
  "timers (hlsOnError f t d s) = timers s \<and> loadTimeoutId (hlsOnError f t d s) = loadTimeoutId s \<or>
   timers (hlsOnError f t d s) = timers (cancelLoadTimeout s) \<and>
   loadTimeoutId (hlsOnError f t d s) = loadTimeoutId (cancelLoadTimeout s)"
  "nextTimer (hlsOnError f t d s) = nextTimer s"
  by (simp_all add: hlsOnError_def Let_def adapter_onError_timers
      split: option.splits error_type.splits)

lemma hlsManifestParsed_timers:
  "timers (hlsManifestParsed s) = timers s \<and>
     loadTimeoutId (hlsManifestParsed s) = loadTimeoutId s \<or>
   timers (hlsManifestParsed s) = timers (cancelLoadTimeout s) \<and>
     loadTimeoutId (hlsManifestParsed s) = loadTimeoutId (cancelLoadTimeout s)"
  "nextTimer (hlsManifestParsed s) = nextTimer s"
  by (simp_all add: hlsManifestParsed_def raceResolved_timers cancelLoadTimeout_timers
      split: option.splits)

lemma step_timers_cases:
  "(\<exists>url. ev = CallLoad url) \<or>
   nextTimer (step b ev s) = nextTimer s \<and>
   (timers (step b ev s) = timers (cancelLoadTimeout s) \<and>
      loadTimeoutId (step b ev s) = loadTimeoutId (cancelLoadTimeout s) \<or>
    set (timers (step b ev s)) \<subseteq> set (timers s) \<and>
      loadTimeoutId (step b ev s) = loadTimeoutId s)"
proof (cases ev)
  case (CallLoad url)
  then show ?thesis by simp
next
  case CallStop
  then show ?thesis by (simp add: stop_timers)
next
  case CallDestroy
  then show ?thesis by (simp add: destroy_def stop_timers)
next
  case (Advance d)
  then show ?thesis by simp
next
  case (Timer i)
  then show ?thesis by (simp add: timeoutFires_timers)
next
  case (HlsError f t d)
  then show ?thesis using hlsOnError_timers [of f t d s] by auto
next
  case HlsMediaAttached
  then show ?thesis by (simp add: hlsMediaAttached_def split: option.splits)
next
  case HlsManifestParsed
  then show ?thesis using hlsManifestParsed_timers [of s] by auto
next
  case (DashError m)
  then show ?thesis by (simp add: dashOnError_def adapter_onError_timers split: option.splits)
next
  case DashStreamInitialized
  then show ?thesis
    by (simp add: dashStreamInitialized_def raceResolved_timers cancelLoadTimeout_timers
        split: option.splits)
next
  case DashPlaybackStarted
  then show ?thesis by (simp add: dashPlaybackStarted_def split: option.splits)
next
  case (NativeLoaded i)
  then show ?thesis by (simp add: nativeLoaded_def raceResolved_timers)
next
  case (NativeError i)
  then show ?thesis by (simp add: nativeError_def adapter_onError_timers)
next
  case (HlsNativeLoaded i)
  then show ?thesis by (simp add: hlsNativeLoaded_def raceResolved_timers)
next
  case (HlsNativeError i)
  then show ?thesis by (simp add: hlsNativeError_def)
qed

lemma timers_invD:
  assumes "timers_inv s"
  shows "t \<in> set (timers s) \<Longrightarrow> loadTimeoutId s = Some (fst t)"
    and "loadTimeoutId s = Some i \<Longrightarrow> 0 < i \<and> i < nextTimer s"
    and "0 < nextTimer s"
  using assms unfolding timers_inv_def by blast+

lemma timers_invI:
  assumes "\<And>t. t \<in> set (timers s) \<Longrightarrow> loadTimeoutId s = Some (fst t)"
    and "\<And>i. loadTimeoutId s = Some i \<Longrightarrow> 0 < i \<and> i < nextTimer s"
    and "0 < nextTimer s"
  shows "timers_inv s"
  using assms unfolding timers_inv_def by blast

lemma timers_inv_step:
  assumes inv: "timers_inv s"
  shows "timers_inv (step b ev s)"
proof -
  consider (ld) url where "ev = CallLoad url"
    | (cancel) "nextTimer (step b ev s) = nextTimer s"
        "timers (step b ev s) = timers (cancelLoadTimeout s)"
        "loadTimeoutId (step b ev s) = loadTimeoutId (cancelLoadTimeout s)"
    | (shrink) "nextTimer (step b ev s) = nextTimer s"
        "set (timers (step b ev s)) \<subseteq> set (timers s)"
        "loadTimeoutId (step b ev s) = loadTimeoutId s"
    using step_timers_cases [of ev b s] by blast
  then show ?thesis
  proof cases
    case ld
    have t: "timers (load b url s) = [(nextTimer s, clock s + 30000)]"
      by (simp add: load_timers stop_timers_inv [OF inv])
    show ?thesis
      unfolding ld step.simps
    proof (rule timers_invI)
      fix t assume "t \<in> set (timers (load b url s))"
      then show "loadTimeoutId (load b url s) = Some (fst t)"
        by (simp add: t load_timers(2))
    next
      fix i assume "loadTimeoutId (load b url s) = Some i"
      then show "0 < i \<and> i < nextTimer (load b url s)"
        using timers_invD(3) [OF inv] by (auto simp: load_timers)
    next
      show "0 < nextTimer (load b url s)" by (simp add: load_timers)
    qed
  next
    case cancel
    show ?thesis
    proof (rule timers_invI)
      fix t assume "t \<in> set (timers (step b ev s))"
      then show "loadTimeoutId (step b ev s) = Some (fst t)"
        by (simp add: cancel timers_inv_cancel [OF inv])
    next
      fix i assume "loadTimeoutId (step b ev s) = Some i"
      then show "0 < i \<and> i < nextTimer (step b ev s)"
        by (simp add: cancel timers_inv_cancel [OF inv])
    next
      show "0 < nextTimer (step b ev s)"
        using timers_invD(3) [OF inv] by (simp add: cancel)
    qed
  next
    case shrink
    show ?thesis
    proof (rule timers_invI)
      fix t assume "t \<in> set (timers (step b ev s))"
      then have "t \<in> set (timers s)" using shrink(2) by blast
      then show "loadTimeoutId (step b ev s) = Some (fst t)"
        using timers_invD(1) [OF inv] by (simp add: shrink)
    next
      fix i assume "loadTimeoutId (step b ev s) = Some i"
      then show "0 < i \<and> i < nextTimer (step b ev s)"
        using timers_invD(2) [OF inv, of i] by (simp add: shrink)
    next
      show "0 < nextTimer (step b ev s)"
        using timers_invD(3) [OF inv] by (simp add: shrink)
    qed
  qed
qed

lemma timers_inv_run: "timers_inv s \<Longrightarrow> timers_inv (run b evs s)"
  by (induction evs arbitrary: s) (simp_all add: timers_inv_step)

lemma timers_inv_initial: "timers_inv (initial x y z)"
  by (simp add: timers_inv_def initial_def)

lemma step_fresh:
  assumes "i < nextTimer s" "i \<notin> fst ` set (timers s)"
  shows "i < nextTimer (step b ev s) \<and> i \<notin> fst ` set (timers (step b ev s))"
proof -
  consider (ld) url where "ev = CallLoad url"
    | (cancel) "nextTimer (step b ev s) = nextTimer s"
        "timers (step b ev s) = timers (cancelLoadTimeout s)"
    | (shrink) "nextTimer (step b ev s) = nextTimer s"
        "set (timers (step b ev s)) \<subseteq> set (timers s)"
    using step_timers_cases [of ev b s] by blast
  then show ?thesis
  proof cases
    case ld
    have "set (timers (stop s)) \<subseteq> set (timers s)"
      using cancel_shrinks by (simp add: stop_timers)
    then show ?thesis using ld assms by (auto simp: load_timers)
  next
    case cancel
    then show ?thesis using assms cancel_shrinks [of s] by auto
  next
    case shrink
    then show ?thesis using assms by auto
  qed
qed

lemma run_fresh:
  "i < nextTimer s \<Longrightarrow> i \<notin> fst ` set (timers s) \<Longrightarrow>
   i < nextTimer (run b evs s) \<and> i \<notin> fst ` set (timers (run b evs s))"
proof (induction evs arbitrary: s)
  case Nil
  then show ?case by simp
next
  case (Cons ev evs)
  show ?case
    using Cons.IH [of "step b ev s"] step_fresh [OF Cons.prems, of b ev] by simp
qed

lemma timeoutFires_absent: "i \<notin> fst ` set (timers s) \<Longrightarrow> timeoutFires i s = s"
proof -
  assume "i \<notin> fst ` set (timers s)"
  then have "find (\<lambda>t. fst t = i) (timers s) = None"
    by (force simp: find_None_iff)
  then show ?thesis by (simp add: timeoutFires_def)
qed


subsection \<open>Traces\<close>

lemma stop_trace:
  "trace (stop s) =
     trace s @
     (case loadTimeoutId s of None \<Rightarrow> [] | Some i \<Rightarrow> if i \<noteq> 0 then [ClearTimeout i] else []) @
     (case currentAdapter s of
        None \<Rightarrow> []
      | Some a \<Rightarrow>
          Destroy a #
          (case a of
             Hls \<Rightarrow> (case hls s of None \<Rightarrow> [] | Some h \<Rightarrow> [HlsDestroy])
           | Dash \<Rightarrow> (case player s of None \<Rightarrow> [] | Some p \<Rightarrow> [DashReset])
           | Native \<Rightarrow> [VideoLoad])) @
     [VideoPause, VideoRemoveSrc, VideoLoad]"
  by (simp add: stop_def Let_def cancelLoadTimeout_timers adapter_destroy.simps
      split: option.splits stream_type.splits)

lemma stop_trace_ex:
  "\<exists>pre. trace (stop s) = trace s @ pre \<and>
     (\<forall>a. currentAdapter s = Some a \<longrightarrow> Destroy a \<in> set pre) \<and>
     (\<forall>i. loadTimeoutId s = Some i \<and> i \<noteq> 0 \<longrightarrow> ClearTimeout i \<in> set pre) \<and>
     (\<forall>k u. Load k u \<notin> set pre)"
  unfolding stop_trace
  by (rule exI, rule conjI, rule refl)
    (auto split: option.splits stream_type.splits)

lemma beginLoad_trace:
  "\<exists>post. trace (beginLoad b url s) = trace s @ Load (detectStreamType url) url # post \<and>
     (\<forall>k. Destroy k \<notin> set post) \<and> (\<forall>k u. Load k u \<notin> set post)"
proof -
  let ?k = "detectStreamType url"
  let ?s1 = "emit (Load ?k url)
      (s\<lparr>currentAdapter := Some ?k, currentUrl := Some url,
         adapterEvents := (adapterEvents s)(?k := True)\<rparr>)"
  let ?r = "adapter_load b ?k (nextTimer s) url ?s1"
  obtain p1 where p1: "trace (snd ?r) = trace ?s1 @ p1"
    "\<forall>k u. Load k u \<notin> set p1" "\<forall>k. Destroy k \<notin> set p1"
    using adapter_load_trace [of b ?k "nextTimer s" url ?s1] by blast
  have t1: "trace ?s1 = trace s @ [Load ?k url]" by simp
  show ?thesis
  proof (cases "fst ?r")
    case None
    then have "trace (beginLoad b url s) =
        trace s @ Load ?k url # (p1 @ [SetTimeout (nextTimer s) 30000])"
      using p1(1) by (simp add: beginLoad_unfold Let_def)
    then show ?thesis using p1(2,3) by (intro exI [of _ "p1 @ [SetTimeout (nextTimer s) 30000]"]) simp
  next
    case (Some e)
    then have "trace (beginLoad b url s) =
        trace s @ Load ?k url #
          (p1 @ [SetTimeout (nextTimer s) 30000] @
           (if pm_onError s then [CallOnError e] else []) @ [Returned (nextTimer s) False])"
      using p1(1) by (simp add: beginLoad_unfold Let_def raceRejected_trace)
    then show ?thesis using p1(2,3)
      by (intro exI [of _ "p1 @ [SetTimeout (nextTimer s) 30000] @
           (if pm_onError s then [CallOnError e] else []) @ [Returned (nextTimer s) False]"]) simp
  qed
qed


subsection \<open>Waiting for the timeout\<close>

lemma run_Advance: "run b (map Advance ds) s = s\<lparr>clock := clock s + sum_list ds\<rparr>"
  by (induction ds arbitrary: s) (simp_all add: add.assoc)

lemma load_then_wait:
  assumes "timers_inv s0" "nextTimer s0 \<in> set (pending (load b url s0))"
    "30000 \<le> sum_list ds"
  shows "trace (timeoutFires (nextTimer s0) (run b (map Advance ds) (load b url s0))) =
           trace (load b url s0) @
           (if pm_onError s0 then [CallOnError (Error ''Load timeout'')] else []) @
           [Returned (nextTimer s0) False]"
    and "hls (timeoutFires (nextTimer s0) (run b (map Advance ds) (load b url s0))) =
           hls (load b url s0)"
    and "player (timeoutFires (nextTimer s0) (run b (map Advance ds) (load b url s0))) =
           player (load b url s0)"
    and "videoSrc (timeoutFires (nextTimer s0) (run b (map Advance ds) (load b url s0))) =
           videoSrc (load b url s0)"
    and "currentAdapter (timeoutFires (nextTimer s0) (run b (map Advance ds) (load b url s0))) =
           Some (detectStreamType url)"
proof -
  let ?s1 = "load b url s0"
  let ?s2 = "?s1\<lparr>clock := clock ?s1 + sum_list ds\<rparr>"
  let ?s3 = "?s2\<lparr>timers := filter (\<lambda>t. fst t \<noteq> nextTimer s0) (timers ?s2)\<rparr>"
  have tm: "timers ?s1 = [(nextTimer s0, clock s0 + 30000)]"
    by (simp add: load_timers stop_timers_inv [OF assms(1)])
  have oe: "pm_onError ?s1 = pm_onError s0" by (simp add: load_def)
  have e: "timeoutFires (nextTimer s0) (run b (map Advance ds) ?s1) =
      raceRejected (nextTimer s0) (Error ''Load timeout'') ?s3"
    using assms(3) by (simp add: run_Advance timeoutFires_def tm load_timers(4))
  show "trace (timeoutFires (nextTimer s0) (run b (map Advance ds) ?s1)) =
           trace ?s1 @ (if pm_onError s0 then [CallOnError (Error ''Load timeout'')] else []) @
           [Returned (nextTimer s0) False]"
    unfolding e using assms(2) oe by (simp add: raceRejected_trace)
  show "hls (timeoutFires (nextTimer s0) (run b (map Advance ds) ?s1)) = hls ?s1"
    unfolding e by simp
  show "player (timeoutFires (nextTimer s0) (run b (map Advance ds) ?s1)) = player ?s1"
    unfolding e by simp
  show "videoSrc (timeoutFires (nextTimer s0) (run b (map Advance ds) ?s1)) = videoSrc ?s1"
    unfolding e by simp
  show "currentAdapter (timeoutFires (nextTimer s0) (run b (map Advance ds) ?s1)) =
      Some (detectStreamType url)"
    unfolding e by (simp add: load_def)
qed


subsection \<open>Evaluation\<close>

lemmas pm_eval =
  load_def stop_def beginLoad_def setupAdapterEvents_def setLoadTimeout_def
  HlsAdapter_load_def DashAdapter_load_def NativeAdapter_load_def adapter_destroy.simps
  cancelLoadTimeout_def clearTimeout_def emit_def raceResolved_def raceRejected_def
  call_onError_pm_def timeoutFires_def onAdapterError_def adapter_onError_def hlsOnError_def
  hlsMediaAttached_def hlsManifestParsed_def dashOnError_def dashStreamInitialized_def
  dashPlaybackStarted_def nativeLoaded_def nativeError_def hlsNativeLoaded_def
  hlsNativeError_def destroy_def initial_def Let_def

section \<open>Stream type detection: the order of the marker groups\<close>

text \<open>
  C1, as stated, names \<^verbatim>\<open>.m3u8\<close> as the only marker of the HLS group.  The code's first
  test also accepts \<^verbatim>\<open>format=m3u8\<close>, \<^verbatim>\<open>/hls/\<close> and \<^verbatim>\<open>hls.\<close>, so a locator without
  \<^verbatim>\<open>.m3u8\<close> that carries a DASH marker is not always sent to DASH: the locator below
  has the host name \<^verbatim>\<open>hls.example.tv\<close> and the extension \<^verbatim>\<open>.mpd\<close>, and is
  classified as HLS.
\<close>

theorem detectStreamType_m3u8_only_counterexample:
  "\<not> includes_str (toLowerCase ''http://hls.example.tv/live.mpd'') ''.m3u8'' \<and>
   includes_str (toLowerCase ''http://hls.example.tv/live.mpd'') ''.mpd'' \<and>
   detectStreamType ''http://hls.example.tv/live.mpd'' = Hls"
  by code_simp

text \<open>
  C1 (amended): with \<open>l\<close> the lower-cased locator, \<^verbatim>\<open>detectStreamType\<close> returns HLS when
  \<open>l\<close> contains one of \<^verbatim>\<open>.m3u8\<close>, \<^verbatim>\<open>format=m3u8\<close>, \<^verbatim>\<open>/hls/\<close>, \<^verbatim>\<open>hls.\<close>; otherwise DASH
  when \<open>l\<close> contains one of \<^verbatim>\<open>.mpd\<close>, \<^verbatim>\<open>format=mpd\<close>, \<^verbatim>\<open>/dash/\<close>; otherwise Direct
  (the native adapter) when \<open>l\<close> contains one of \<^verbatim>\<open>.mp4\<close>, \<^verbatim>\<open>.webm\<close>, \<^verbatim>\<open>.ogg\<close>,
  \<^verbatim>\<open>.mov\<close>; and HLS for every remaining locator.  The groups are tested in this order, so
  an earlier group wins over a later one.  In particular a locator that contains an HLS
  marker in any mix of upper and lower case is classified as HLS.
\<close>

theorem detectStreamType_marker_groups:
  "((\<exists>m \<in> set [''.m3u8'', ''format=m3u8'', ''/hls/'', ''hls.''].
        includes_str (toLowerCase url) m)
      \<longrightarrow> detectStreamType url = Hls) \<and>
   (\<not> (\<exists>m \<in> set [''.m3u8'', ''format=m3u8'', ''/hls/'', ''hls.''].
        includes_str (toLowerCase url) m) \<and>
    (\<exists>m \<in> set [''.mpd'', ''format=mpd'', ''/dash/'']. includes_str (toLowerCase url) m)
      \<longrightarrow> detectStreamType url = Dash) \<and>
   (\<not> (\<exists>m \<in> set [''.m3u8'', ''format=m3u8'', ''/hls/'', ''hls.''].
        includes_str (toLowerCase url) m) \<and>
    \<not> (\<exists>m \<in> set [''.mpd'', ''format=mpd'', ''/dash/'']. includes_str (toLowerCase url) m) \<and>
    (\<exists>m \<in> set [''.mp4'', ''.webm'', ''.ogg'', ''.mov'']. includes_str (toLowerCase url) m)
      \<longrightarrow> detectStreamType url = Native) \<and>
   (\<not> (\<exists>m \<in> set [''.m3u8'', ''format=m3u8'', ''/hls/'', ''hls.''].
        includes_str (toLowerCase url) m) \<and>
    \<not> (\<exists>m \<in> set [''.mpd'', ''format=mpd'', ''/dash/'']. includes_str (toLowerCase url) m) \<and>
    \<not> (\<exists>m \<in> set [''.mp4'', ''.webm'', ''.ogg'', ''.mov'']. includes_str (toLowerCase url) m)
      \<longrightarrow> detectStreamType url = Hls) \<and>
   (\<forall>w. includes_str url w \<and>
        toLowerCase w \<in> set [''.m3u8'', ''format=m3u8'', ''/hls/'', ''hls.'']
      \<longrightarrow> detectStreamType url = Hls)"
proof -
  have m3u8q: "includes_str l ''.m3u8?'' \<Longrightarrow> includes_str l ''.m3u8''" for l
  proof -
    assume "includes_str l ''.m3u8?''"
    then obtain p q where "l = p @ ''.m3u8?'' @ q"
      by (auto simp: includes_sublist sublist_def)
    then have "l = p @ ''.m3u8'' @ (''?'' @ q)" by simp
    then show ?thesis by (simp only: includes_append)
  qed
  have h: "hlsMarker l \<longleftrightarrow>
      (\<exists>m \<in> set [''.m3u8'', ''format=m3u8'', ''/hls/'', ''hls.'']. includes_str l m)" for l
    using m3u8q [of l] by (auto simp: hlsMarker_def)
  have d: "dashMarker l \<longleftrightarrow>
      (\<exists>m \<in> set [''.mpd'', ''format=mpd'', ''/dash/'']. includes_str l m)" for l
    by (auto simp: dashMarker_def)
  have n: "nativeMarker l \<longleftrightarrow>
      (\<exists>m \<in> set [''.mp4'', ''.webm'', ''.ogg'', ''.mov'']. includes_str l m)" for l
    by (auto simp: nativeMarker_def)
  have anycase: "detectStreamType url = Hls"
    if w: "includes_str url w \<and>
        toLowerCase w \<in> set [''.m3u8'', ''format=m3u8'', ''/hls/'', ''hls.'']" for w
  proof -
    have "includes_str (toLowerCase url) (toLowerCase w)"
      using w includes_toLowerCase by blast
    then have "hlsMarker (toLowerCase url)"
      unfolding h using w by blast
    then show ?thesis by (simp add: detectStreamType_def Let_def)
  qed
  have groups:
    "(hlsMarker (toLowerCase url) \<longrightarrow> detectStreamType url = Hls) \<and>
     (\<not> hlsMarker (toLowerCase url) \<and> dashMarker (toLowerCase url)
        \<longrightarrow> detectStreamType url = Dash) \<and>
     (\<not> hlsMarker (toLowerCase url) \<and> \<not> dashMarker (toLowerCase url) \<and>
      nativeMarker (toLowerCase url) \<longrightarrow> detectStreamType url = Native) \<and>
     (\<not> hlsMarker (toLowerCase url) \<and> \<not> dashMarker (toLowerCase url) \<and>
      \<not> nativeMarker (toLowerCase url) \<longrightarrow> detectStreamType url = Hls)"
    by (simp add: detectStreamType_def Let_def)
  show ?thesis
    using groups anycase unfolding h d n by blast
qed

theorem detectStreamType_marker_groups_witness:
  "detectStreamType ''http://tv.example/Live/INDEX.M3U8'' = Hls \<and>
   detectStreamType ''http://tv.example/dash/manifest'' = Dash \<and>
   detectStreamType ''http://tv.example/film.mp4'' = Native \<and>
   detectStreamType ''http://x/stream'' = Hls"
proof -
  have "\<exists>m \<in> set [''.m3u8'', ''format=m3u8'', ''/hls/'', ''hls.''].
          includes_str (toLowerCase ''http://tv.example/Live/INDEX.M3U8'') m"
    by code_simp
  moreover have
    "\<not> (\<exists>m \<in> set [''.m3u8'', ''format=m3u8'', ''/hls/'', ''hls.''].
          includes_str (toLowerCase ''http://tv.example/dash/manifest'') m) \<and>
     (\<exists>m \<in> set [''.mpd'', ''format=mpd'', ''/dash/''].
          includes_str (toLowerCase ''http://tv.example/dash/manifest'') m)"
    by code_simp
  moreover have
    "\<not> (\<exists>m \<in> set [''.m3u8'', ''format=m3u8'', ''/hls/'', ''hls.''].
          includes_str (toLowerCase ''http://tv.example/film.mp4'') m) \<and>
     \<not> (\<exists>m \<in> set [''.mpd'', ''format=mpd'', ''/dash/''].
          includes_str (toLowerCase ''http://tv.example/film.mp4'') m) \<and>
     (\<exists>m \<in> set [''.mp4'', ''.webm'', ''.ogg'', ''.mov''].
          includes_str (toLowerCase ''http://tv.example/film.mp4'') m)"
    by code_simp
  moreover have
    "\<not> (\<exists>m \<in> set [''.m3u8'', ''format=m3u8'', ''/hls/'', ''hls.''].
          includes_str (toLowerCase ''http://x/stream'') m) \<and>
     \<not> (\<exists>m \<in> set [''.mpd'', ''format=mpd'', ''/dash/''].
          includes_str (toLowerCase ''http://x/stream'') m) \<and>
     \<not> (\<exists>m \<in> set [''.mp4'', ''.webm'', ''.ogg'', ''.mov''].
          includes_str (toLowerCase ''http://x/stream'') m)"
    by code_simp
  ultimately show ?thesis
    using detectStreamType_marker_groups [of "''http://tv.example/Live/INDEX.M3U8''",
        THEN conjunct1, THEN mp]
      detectStreamType_marker_groups [of "''http://tv.example/dash/manifest''",
        THEN conjunct2, THEN conjunct1, THEN mp]
      detectStreamType_marker_groups [of "''http://tv.example/film.mp4''",
        THEN conjunct2, THEN conjunct2, THEN conjunct1, THEN mp]
      detectStreamType_marker_groups [of "''http://x/stream''",
        THEN conjunct2, THEN conjunct2, THEN conjunct2, THEN conjunct1, THEN mp]
    by (intro conjI) assumption+
qed

section \<open>Loading replaces the previous adapter\<close>

text \<open>
  C2: in every state \<open>s\<close> the manager reaches, a call of \<^verbatim>\<open>load(url)\<close> first runs
  \<^verbatim>\<open>stop()\<close>, whose effects \<open>pre\<close> include the cancelling of the pending load timeout
  and the \<^verbatim>\<open>destroy()\<close> of the current adapter, when there is one; after it no timer
  is pending, no adapter is current and none is attached to the video element.  Only
  then is the new adapter selected and its \<^verbatim>\<open>load\<close> called, and afterwards no adapter
  but the new one is attached.  So in every reachable state at most one adapter is
  attached.
\<close>

theorem load_destroys_previous_adapter_first:
  assumes "s = run b evs (initial x y z)"
  shows "\<exists>pre post.
      trace (stop s) = trace s @ pre \<and>
      trace (load b url s) = trace s @ pre @ Load (detectStreamType url) url # post \<and>
      (\<forall>a. currentAdapter s = Some a \<longrightarrow> Destroy a \<in> set pre) \<and>
      (\<forall>i. loadTimeoutId s = Some i \<longrightarrow> ClearTimeout i \<in> set pre) \<and>
      (\<forall>k u. Load k u \<notin> set pre) \<and>
      (\<forall>k. Destroy k \<notin> set post) \<and>
      (\<forall>k. \<not> attached (stop s) k) \<and> currentAdapter (stop s) = None \<and>
      timers (stop s) = [] \<and>
      (\<forall>k. attached (load b url s) k \<longrightarrow> k = detectStreamType url) \<and>
      currentAdapter (load b url s) = Some (detectStreamType url) \<and>
      (\<forall>k k'. attached s k \<and> attached s k' \<longrightarrow> k = k')"
proof -
  have ai: "attached_inv s"
    unfolding assms by (rule attached_inv_run [OF attached_inv_initial])
  have ti: "timers_inv s"
    unfolding assms by (rule timers_inv_run [OF timers_inv_initial])
  obtain pre where pre: "trace (stop s) = trace s @ pre"
    "\<forall>a. currentAdapter s = Some a \<longrightarrow> Destroy a \<in> set pre"
    "\<forall>i. loadTimeoutId s = Some i \<and> i \<noteq> 0 \<longrightarrow> ClearTimeout i \<in> set pre"
    "\<forall>k u. Load k u \<notin> set pre"
    using stop_trace_ex [of s] by blast
  obtain post where post:
    "trace (beginLoad b url (stop s)) = trace (stop s) @ Load (detectStreamType url) url # post"
    "\<forall>k. Destroy k \<notin> set post"
    using beginLoad_trace [of b url "stop s"] by blast
  have c1: "trace (load b url s) = trace s @ pre @ Load (detectStreamType url) url # post"
    using pre(1) post(1) by (simp add: load_def)
  have c2: "\<forall>i. loadTimeoutId s = Some i \<longrightarrow> ClearTimeout i \<in> set pre"
    using pre(3) timers_invD(2) [OF ti] by auto
  have c3: "\<forall>k. \<not> attached (stop s) k"
    using stop_detaches [OF ai] by simp
  have c4: "\<forall>k. attached (load b url s) k \<longrightarrow> k = detectStreamType url"
    unfolding load_def using beginLoad_attached [OF c3] by blast
  have c5: "\<forall>k k'. attached s k \<and> attached s k' \<longrightarrow> k = k'"
    using ai unfolding attached_inv_def by (metis option.inject)
  have c6: "currentAdapter (load b url s) = Some (detectStreamType url)"
    by (simp add: load_def)
  have c7: "timers (stop s) = []" by (rule stop_timers_inv(1) [OF ti])
  have c8: "currentAdapter (stop s) = None" by simp
  show ?thesis
    using pre(1) c1 pre(2) c2 pre(4) post(2) c3 c8 c7 c4 c6 c5 by blast
qed


theorem load_destroys_previous_adapter_first_witness:
  "\<exists>pre post.
     trace (load \<lparr>canPlayNativeHls = False, hlsSupported = True, dashSupported = True,
                   dashFault = None\<rparr> ''http://tv.example/b.mpd''
              (run \<lparr>canPlayNativeHls = False, hlsSupported = True, dashSupported = True,
                     dashFault = None\<rparr>
                 [CallLoad ''http://tv.example/a.m3u8''] (initial True False False))) =
       trace (run \<lparr>canPlayNativeHls = False, hlsSupported = True, dashSupported = True,
                     dashFault = None\<rparr>
                 [CallLoad ''http://tv.example/a.m3u8''] (initial True False False)) @
       pre @ Load Dash ''http://tv.example/b.mpd'' # post \<and>
     Destroy Hls \<in> set pre \<and> ClearTimeout 1 \<in> set pre \<and>
     (\<forall>k. attached
            (load \<lparr>canPlayNativeHls = False, hlsSupported = True, dashSupported = True,
                    dashFault = None\<rparr> ''http://tv.example/b.mpd''
               (run \<lparr>canPlayNativeHls = False, hlsSupported = True, dashSupported = True,
                      dashFault = None\<rparr>
                  [CallLoad ''http://tv.example/a.m3u8''] (initial True False False))) k \<longrightarrow>
          k = Dash)"
proof -
  let ?b = "\<lparr>canPlayNativeHls = False, hlsSupported = True, dashSupported = True,
             dashFault = None\<rparr>"
  let ?s = "run ?b [CallLoad ''http://tv.example/a.m3u8''] (initial True False False)"
  have d1: "detectStreamType ''http://tv.example/a.m3u8'' = Hls" by code_simp
  have d2: "detectStreamType ''http://tv.example/b.mpd'' = Dash" by code_simp
  have ca: "currentAdapter ?s = Some Hls" by (simp add: load_def d1)
  have lt: "loadTimeoutId ?s = Some 1" by (simp add: load_timers initial_def)
  obtain pre post where p:
    "trace (load ?b ''http://tv.example/b.mpd'' ?s) =
       trace ?s @ pre @ Load (detectStreamType ''http://tv.example/b.mpd'')
         ''http://tv.example/b.mpd'' # post"
    "\<forall>a. currentAdapter ?s = Some a \<longrightarrow> Destroy a \<in> set pre"
    "\<forall>i. loadTimeoutId ?s = Some i \<longrightarrow> ClearTimeout i \<in> set pre"
    "\<forall>k. attached (load ?b ''http://tv.example/b.mpd'' ?s) k \<longrightarrow>
       k = detectStreamType ''http://tv.example/b.mpd''"
    using load_destroys_previous_adapter_first [OF refl,
        of ?b "[CallLoad ''http://tv.example/a.m3u8'']" True False False
          "''http://tv.example/b.mpd''"]
    by blast
  have "Destroy Hls \<in> set pre" using p(2) ca by blast
  moreover have "ClearTimeout 1 \<in> set pre" using p(3) lt by blast
  ultimately show ?thesis
    using p(1,4) unfolding d2 by blast
qed

section \<open>The load timeout\<close>

text \<open>
  C3, as stated, has \<^verbatim>\<open>load\<close> fail whenever the adapter's promise has not settled
  within 30000 ms.  The failure comes from the timer alone, and the timer can be
  cancelled while the promise stays unsettled.  Below, a fatal network error of the HLS
  engine arrives after the load: the manager's handler clears the timer and the adapter
  calls \<^verbatim>\<open>startLoad()\<close> without settling its promise.  When 30000 ms have passed and
  the timer's turn comes, the call of \<^verbatim>\<open>load\<close> is still waiting and the adapter's
  promise is unsettled: there is no \<^verbatim>\<open>Load timeout\<close> error and no return value.
\<close>

theorem load_timeout_cancelled_counterexample:
  "pending (run \<lparr>canPlayNativeHls = False, hlsSupported = True, dashSupported = True,
                  dashFault = None\<rparr>
              [CallLoad ''http://tv.example/a.m3u8'',
               HlsError True NETWORK_ERROR ''manifestLoadError'', Advance 30000, Timer 1]
              (initial True False False)) = [1] \<and>
   trace (run \<lparr>canPlayNativeHls = False, hlsSupported = True, dashSupported = True,
                dashFault = None\<rparr>
            [CallLoad ''http://tv.example/a.m3u8'',
             HlsError True NETWORK_ERROR ''manifestLoadError'', Advance 30000, Timer 1]
            (initial True False False)) =
   [VideoPause, VideoRemoveSrc, VideoLoad, Load Hls ''http://tv.example/a.m3u8'',
    HlsAttachMedia, SetTimeout 1 30000, ClearTimeout 1,
    CallOnError (HlsErrorData True NETWORK_ERROR ''manifestLoadError''), HlsStartLoad] \<and>
   clock (run \<lparr>canPlayNativeHls = False, hlsSupported = True, dashSupported = True,
                dashFault = None\<rparr>
            [CallLoad ''http://tv.example/a.m3u8'',
             HlsError True NETWORK_ERROR ''manifestLoadError'', Advance 30000, Timer 1]
            (initial True False False)) = 30000 \<and>
   hls (run \<lparr>canPlayNativeHls = False, hlsSupported = True, dashSupported = True,
              dashFault = None\<rparr>
          [CallLoad ''http://tv.example/a.m3u8'',
           HlsError True NETWORK_ERROR ''manifestLoadError'', Advance 30000, Timer 1]
          (initial True False False)) =
   Some \<lparr>source = ''http://tv.example/a.m3u8'', resolved = False, promise = 1\<rparr>"
proof -
  have d1: "detectStreamType ''http://tv.example/a.m3u8'' = Hls" by code_simp
  show ?thesis by (simp add: pm_eval d1)
qed

text \<open>
  C3 (amended): a call of \<^verbatim>\<open>load\<close> sets a timer due 30000 ms after the call, and the
  timer cannot fire before it is due.  When it fires while the call is still waiting for
  the adapter (neither \<^verbatim>\<open>stop()\<close>, a newer \<^verbatim>\<open>load()\<close> nor a fatal adapter error
  having cancelled it), the call ends as a failure: the error \<^verbatim>\<open>Load timeout\<close> is
  passed to \<^verbatim>\<open>onError\<close> (when that callback is set) and the call returns
  \<^verbatim>\<open>false\<close>.  Nothing else happens: no \<^verbatim>\<open>destroy\<close> is called, and the current
  adapter, its engine and the video source are what they were, so the adapter is left
  running.  In particular, when after a call of \<^verbatim>\<open>load\<close> in a reachable state nothing
  happens but the passing of at least 30000 ms, the timer then ends the call in this way.
\<close>

theorem load_timeout_leaves_adapter_running:
  "(nextTimer st, clock st + 30000) \<in> set (timers (load b url st)) \<and>
   (find (\<lambda>t. fst t = i) (timers s) = Some (i, due) \<and> clock s < due \<longrightarrow>
      timeoutFires i s = s) \<and>
   (find (\<lambda>t. fst t = i) (timers s) = Some (i, due) \<and> due \<le> clock s \<and> i \<in> set (pending s) \<longrightarrow>
      trace (timeoutFires i s) =
        trace s @ (if pm_onError s then [CallOnError (Error ''Load timeout'')] else []) @
        [Returned i False] \<and>
      i \<notin> set (pending (timeoutFires i s)) \<and>
      currentAdapter (timeoutFires i s) = currentAdapter s \<and>
      hls (timeoutFires i s) = hls s \<and>
      player (timeoutFires i s) = player s \<and>
      videoSrc (timeoutFires i s) = videoSrc s \<and>
      (\<forall>k. attached (timeoutFires i s) k = attached s k)) \<and>
   (st = run b evs (initial x y z) \<and> nextTimer st \<in> set (pending (load b url st)) \<and>
    30000 \<le> sum_list ds \<longrightarrow>
      trace (timeoutFires (nextTimer st) (run b (map Advance ds) (load b url st))) =
        trace (load b url st) @
        (if pm_onError st then [CallOnError (Error ''Load timeout'')] else []) @
        [Returned (nextTimer st) False] \<and>
      hls (timeoutFires (nextTimer st) (run b (map Advance ds) (load b url st))) =
        hls (load b url st) \<and>
      player (timeoutFires (nextTimer st) (run b (map Advance ds) (load b url st))) =
        player (load b url st) \<and>
      videoSrc (timeoutFires (nextTimer st) (run b (map Advance ds) (load b url st))) =
        videoSrc (load b url st) \<and>
      currentAdapter (timeoutFires (nextTimer st) (run b (map Advance ds) (load b url st))) =
        Some (detectStreamType url))"
proof -
  have a: "(nextTimer st, clock st + 30000) \<in> set (timers (load b url st))"
    by (simp add: load_timers)
  have b: "find (\<lambda>t. fst t = i) (timers s) = Some (i, due) \<and> clock s < due \<longrightarrow>
      timeoutFires i s = s"
    by (simp add: timeoutFires_def)
  have c: "trace (timeoutFires i s) =
        trace s @ (if pm_onError s then [CallOnError (Error ''Load timeout'')] else []) @
        [Returned i False] \<and>
      i \<notin> set (pending (timeoutFires i s)) \<and>
      currentAdapter (timeoutFires i s) = currentAdapter s \<and>
      hls (timeoutFires i s) = hls s \<and>
      player (timeoutFires i s) = player s \<and>
      videoSrc (timeoutFires i s) = videoSrc s \<and>
      (\<forall>k. attached (timeoutFires i s) k = attached s k)"
    if h: "find (\<lambda>t. fst t = i) (timers s) = Some (i, due) \<and> due \<le> clock s \<and>
        i \<in> set (pending s)"
  proof -
    let ?s1 = "s\<lparr>timers := filter (\<lambda>t. fst t \<noteq> i) (timers s)\<rparr>"
    have e: "timeoutFires i s = raceRejected i (Error ''Load timeout'') ?s1"
      using h by (simp add: timeoutFires_def)
    have f: "hls (timeoutFires i s) = hls s" "player (timeoutFires i s) = player s"
      "videoSrc (timeoutFires i s) = videoSrc s"
      unfolding e by simp_all
    have g: "\<forall>k. attached (timeoutFires i s) k = attached s k"
      using attached_cong [OF f] by blast
    show ?thesis
      using h f g unfolding e by (simp add: raceRejected_trace)
  qed
  have d: "trace (timeoutFires (nextTimer st) (run b (map Advance ds) (load b url st))) =
        trace (load b url st) @
        (if pm_onError st then [CallOnError (Error ''Load timeout'')] else []) @
        [Returned (nextTimer st) False] \<and>
      hls (timeoutFires (nextTimer st) (run b (map Advance ds) (load b url st))) =
        hls (load b url st) \<and>
      player (timeoutFires (nextTimer st) (run b (map Advance ds) (load b url st))) =
        player (load b url st) \<and>
      videoSrc (timeoutFires (nextTimer st) (run b (map Advance ds) (load b url st))) =
        videoSrc (load b url st) \<and>
      currentAdapter (timeoutFires (nextTimer st) (run b (map Advance ds) (load b url st))) =
        Some (detectStreamType url)"
    if h: "st = run b evs (initial x y z) \<and> nextTimer st \<in> set (pending (load b url st)) \<and>
        30000 \<le> sum_list ds"
  proof -
    have ti: "timers_inv st"
      using h timers_inv_run [OF timers_inv_initial] by blast
    have p: "nextTimer st \<in> set (pending (load b url st))" and w: "30000 \<le> sum_list ds"
      using h by blast+
    show ?thesis
      using load_then_wait [OF ti p w] by (intro conjI)
  qed
  show ?thesis using a b c d by blast
qed

theorem load_timeout_leaves_adapter_running_witness:
  "trace (run \<lparr>canPlayNativeHls = False, hlsSupported = True, dashSupported = True,
                dashFault = None\<rparr>
            [CallLoad ''http://tv.example/a.m3u8'', Advance 30000, Timer 1]
            (initial True False False)) =
   [VideoPause, VideoRemoveSrc, VideoLoad, Load Hls ''http://tv.example/a.m3u8'',
    HlsAttachMedia, SetTimeout 1 30000, CallOnError (Error ''Load timeout''),
    Returned 1 False] \<and>
   hls (run \<lparr>canPlayNativeHls = False, hlsSupported = True, dashSupported = True,
              dashFault = None\<rparr>
          [CallLoad ''http://tv.example/a.m3u8'', Advance 30000, Timer 1]
          (initial True False False)) =
   Some \<lparr>source = ''http://tv.example/a.m3u8'', resolved = False, promise = 1\<rparr>"
proof -
  let ?b = "\<lparr>canPlayNativeHls = False, hlsSupported = True, dashSupported = True,
             dashFault = None\<rparr>"
  let ?u = "''http://tv.example/a.m3u8''"
  let ?s0 = "run ?b [] (initial True False False)"
  have d1: "detectStreamType ?u = Hls" by code_simp
  have k: "run ?b [CallLoad ?u, Advance 30000, Timer 1] (initial True False False) =
      timeoutFires (nextTimer ?s0) (run ?b (map Advance [30000]) (load ?b ?u ?s0))"
    by (simp add: initial_def)
  have tr: "trace (load ?b ?u ?s0) =
      [VideoPause, VideoRemoveSrc, VideoLoad, Load Hls ?u, HlsAttachMedia,
       SetTimeout 1 30000]"
    by (simp add: pm_eval d1)
  have h: "hls (load ?b ?u ?s0) = Some \<lparr>source = ?u, resolved = False, promise = 1\<rparr>"
    by (simp add: pm_eval d1)
  have oe: "pm_onError ?s0" by (simp add: initial_def)
  have pre: "?s0 = run ?b [] (initial True False False) \<and>
      nextTimer ?s0 \<in> set (pending (load ?b ?u ?s0)) \<and> 30000 \<le> sum_list [30000::nat]"
    by (simp add: pm_eval d1)
  note t = load_timeout_leaves_adapter_running [where st = ?s0 and b = ?b and evs = "[]"
      and x = True and y = False and z = False and url = ?u and ds = "[30000]",
      THEN conjunct2, THEN conjunct2, THEN conjunct2, THEN mp, OF pre]
  have a: "trace (timeoutFires (nextTimer ?s0) (run ?b (map Advance [30000]) (load ?b ?u ?s0))) =
      [VideoPause, VideoRemoveSrc, VideoLoad, Load Hls ?u, HlsAttachMedia,
       SetTimeout 1 30000, CallOnError (Error ''Load timeout''), Returned 1 False]"
    using t [THEN conjunct1] oe unfolding tr by (simp add: initial_def)
  have b: "hls (timeoutFires (nextTimer ?s0) (run ?b (map Advance [30000]) (load ?b ?u ?s0))) =
      Some \<lparr>source = ?u, resolved = False, promise = 1\<rparr>"
    using t [THEN conjunct2, THEN conjunct1] unfolding h .
  show ?thesis unfolding k using a b by (rule conjI)
qed

section \<open>A fatal adapter error cancels the load timeout\<close>

text \<open>
  C4, as stated, covers every adapter, and names the DASH adapter's \<^verbatim>\<open>ERROR\<close>
  handler.  The manager's handler cancels the timeout only for an error whose
  \<^verbatim>\<open>fatal\<close> property is true, and the event the DASH adapter passes on has none.
  Below, a DASH load meets an engine error and then runs into its timeout: the caller
  receives the adapter's error, and 30000 ms after the call the \<^verbatim>\<open>Load timeout\<close>
  error as well.
\<close>

theorem dash_error_keeps_timeout_counterexample:
  "trace (run \<lparr>canPlayNativeHls = False, hlsSupported = True, dashSupported = True,
                dashFault = None\<rparr>
            [CallLoad ''http://tv.example/b.mpd'', DashError ''manifest error'',
             Advance 30000, Timer 1]
            (initial True False False)) =
   [VideoPause, VideoRemoveSrc, VideoLoad, Load Dash ''http://tv.example/b.mpd'',
    DashInitialize ''http://tv.example/b.mpd'', SetTimeout 1 30000,
    CallOnError (DashErrorEvent ''manifest error''),
    CallOnError (Error ''Load timeout''), Returned 1 False]"
proof -
  have d2: "detectStreamType ''http://tv.example/b.mpd'' = Dash" by code_simp
  show ?thesis by (simp add: pm_eval d2)
qed

text \<open>
  C4 (amended): in every state the manager reaches, when an adapter whose handlers are
  set reports an error whose \<^verbatim>\<open>fatal\<close> property is true (only the data of an hls.js
  error event can be such an error), the manager's handler first cancels the stored load
  timeout, if there is one, and then passes the adapter's error to \<^verbatim>\<open>onError\<close> (when
  that callback is set).  No timer is pending afterwards, and whatever happens later, no
  timer created before the error is ever pending again: its callback does nothing, so no
  \<^verbatim>\<open>Load timeout\<close> error follows for the load that was under way.  The same holds
  after the HLS adapter's own handler has dealt with a fatal engine error of any type.
\<close>

theorem fatal_adapter_error_cancels_timeout:
  assumes "s = run b evs (initial x y z)"
    and "fatal e" and "adapterEvents s a"
  shows "trace (adapter_onError a e s) =
           trace s @
           (case loadTimeoutId s of None \<Rightarrow> [] | Some i \<Rightarrow> [ClearTimeout i]) @
           (if pm_onError s then [CallOnError e] else []) \<and>
         loadTimeoutId (adapter_onError a e s) = None \<and>
         timers (adapter_onError a e s) = [] \<and>
         (\<forall>later i. i < nextTimer s \<longrightarrow>
            i \<notin> fst ` set (timers (run b later (adapter_onError a e s))) \<and>
            timeoutFires i (run b later (adapter_onError a e s)) =
              run b later (adapter_onError a e s)) \<and>
         (\<forall>i. loadTimeoutId s = Some i \<longrightarrow> i < nextTimer s) \<and>
         (\<exists>t d. e = HlsErrorData True t d) \<and>
         (\<forall>t d. a = Hls \<and> hls s \<noteq> None \<longrightarrow>
            timers (hlsOnError True t d s) = [] \<and>
            loadTimeoutId (hlsOnError True t d s) = None \<and>
            (\<forall>later i. i < nextTimer s \<longrightarrow>
               timeoutFires i (run b later (hlsOnError True t d s)) =
                 run b later (hlsOnError True t d s)))"
proof -
  have ti: "timers_inv s"
    unfolding assms(1) by (rule timers_inv_run [OF timers_inv_initial])
  have nz: "loadTimeoutId s = Some i \<Longrightarrow> i \<noteq> 0" for i
    using timers_invD(2) [OF ti, of i] by simp
  have tr: "trace (adapter_onError a e s) =
           trace s @
           (case loadTimeoutId s of None \<Rightarrow> [] | Some i \<Rightarrow> [ClearTimeout i]) @
           (if pm_onError s then [CallOnError e] else [])"
    using assms(2,3) nz
    by (simp add: adapter_onError_def onAdapterError_def cancelLoadTimeout_timers
        split: option.splits)
  have lt: "loadTimeoutId (adapter_onError a e s) = None"
    using assms(2,3) timers_inv_cancel(2) [OF ti] by (simp add: adapter_onError_timers)
  have tm: "timers (adapter_onError a e s) = []"
    using assms(2,3) timers_inv_cancel(1) [OF ti] by (simp add: adapter_onError_timers)
  have never: "i \<notin> fst ` set (timers (run b later s')) \<and>
            timeoutFires i (run b later s') = run b later s'"
    if "timers s' = []" "nextTimer s' = nextTimer s" "i < nextTimer s" for later i s'
  proof -
    have "i < nextTimer s'" using that by simp
    moreover have "i \<notin> fst ` set (timers s')" using that by simp
    ultimately have "i \<notin> fst ` set (timers (run b later s'))"
      using run_fresh by blast
    then show ?thesis using timeoutFires_absent by blast
  qed
  have fr: "\<forall>later i. i < nextTimer s \<longrightarrow>
            i \<notin> fst ` set (timers (run b later (adapter_onError a e s))) \<and>
            timeoutFires i (run b later (adapter_onError a e s)) =
              run b later (adapter_onError a e s)"
    using never [OF tm] by simp
  have cu: "\<forall>i. loadTimeoutId s = Some i \<longrightarrow> i < nextTimer s"
    using timers_invD(2) [OF ti] by blast
  have hd: "\<exists>t d. e = HlsErrorData True t d"
    using assms(2) by (cases e) simp_all
  have hl: "timers (hlsOnError True t d s) = [] \<and>
            loadTimeoutId (hlsOnError True t d s) = None \<and>
            (\<forall>later i. i < nextTimer s \<longrightarrow>
               timeoutFires i (run b later (hlsOnError True t d s)) =
                 run b later (hlsOnError True t d s))"
    if h: "a = Hls \<and> hls s \<noteq> None" for t d
  proof -
    have ae: "adapterEvents s Hls" using h assms(3) by simp
    have c: "timers (cancelLoadTimeout s) = []" "loadTimeoutId (cancelLoadTimeout s) = None"
      by (rule timers_inv_cancel [OF ti])+
    have t0: "timers (hlsOnError True t d s) = []"
      using h ae c
      by (auto simp: hlsOnError_def Let_def adapter_onError_timers
          split: option.splits error_type.splits)
    have l0: "loadTimeoutId (hlsOnError True t d s) = None"
      using h ae c
      by (auto simp: hlsOnError_def Let_def adapter_onError_timers
          split: option.splits error_type.splits)
    have n0: "nextTimer (hlsOnError True t d s) = nextTimer s"
      by (rule hlsOnError_timers(2))
    show ?thesis using t0 l0 never [OF t0 n0] by simp
  qed
  show ?thesis using tr lt tm fr cu hd hl by blast
qed

theorem fatal_adapter_error_cancels_timeout_witness:
  "trace (adapter_onError Hls (HlsErrorData True NETWORK_ERROR ''manifestLoadError'')
      (run \<lparr>canPlayNativeHls = False, hlsSupported = True, dashSupported = True,
             dashFault = None\<rparr>
         [CallLoad ''http://tv.example/a.m3u8''] (initial True False False))) =
   [VideoPause, VideoRemoveSrc, VideoLoad, Load Hls ''http://tv.example/a.m3u8'',
    HlsAttachMedia, SetTimeout 1 30000, ClearTimeout 1,
    CallOnError (HlsErrorData True NETWORK_ERROR ''manifestLoadError'')] \<and>
   timeoutFires 1
     (run \<lparr>canPlayNativeHls = False, hlsSupported = True, dashSupported = True,
            dashFault = None\<rparr> [Advance 30000]
        (hlsOnError True NETWORK_ERROR ''manifestLoadError''
           (run \<lparr>canPlayNativeHls = False, hlsSupported = True, dashSupported = True,
                  dashFault = None\<rparr>
              [CallLoad ''http://tv.example/a.m3u8''] (initial True False False)))) =
   run \<lparr>canPlayNativeHls = False, hlsSupported = True, dashSupported = True,
         dashFault = None\<rparr> [Advance 30000]
     (hlsOnError True NETWORK_ERROR ''manifestLoadError''
        (run \<lparr>canPlayNativeHls = False, hlsSupported = True, dashSupported = True,
               dashFault = None\<rparr>
           [CallLoad ''http://tv.example/a.m3u8''] (initial True False False)))"
proof -
  let ?b = "\<lparr>canPlayNativeHls = False, hlsSupported = True, dashSupported = True,
             dashFault = None\<rparr>"
  let ?s = "run ?b [CallLoad ''http://tv.example/a.m3u8''] (initial True False False)"
  let ?e = "HlsErrorData True NETWORK_ERROR ''manifestLoadError''"
  have d1: "detectStreamType ''http://tv.example/a.m3u8'' = Hls" by code_simp
  have f: "fatal ?e" by simp
  have ae: "adapterEvents ?s Hls" by (simp add: pm_eval d1)
  have lt: "loadTimeoutId ?s = Some 1" by (simp add: pm_eval d1)
  have nt: "(1::nat) < nextTimer ?s" by (simp add: pm_eval d1)
  have oe: "pm_onError ?s" by (simp add: pm_eval d1)
  have he: "Hls = Hls \<and> hls ?s \<noteq> None" by (simp add: pm_eval d1)
  have tr: "trace ?s =
      [VideoPause, VideoRemoveSrc, VideoLoad, Load Hls ''http://tv.example/a.m3u8'',
       HlsAttachMedia, SetTimeout 1 30000]"
    by (simp add: pm_eval d1)
  note t = fatal_adapter_error_cancels_timeout [OF refl f ae]
  have a: "trace (adapter_onError Hls ?e ?s) =
      [VideoPause, VideoRemoveSrc, VideoLoad, Load Hls ''http://tv.example/a.m3u8'',
       HlsAttachMedia, SetTimeout 1 30000, ClearTimeout 1, CallOnError ?e]"
    using t [THEN conjunct1] oe unfolding tr lt by simp
  note u = t [THEN conjunct2, THEN conjunct2, THEN conjunct2, THEN conjunct2, THEN conjunct2,
      THEN conjunct2, rule_format, of NETWORK_ERROR "''manifestLoadError''", OF he]
  have b: "timeoutFires 1 (run ?b [Advance 30000]
        (hlsOnError True NETWORK_ERROR ''manifestLoadError'' ?s)) =
      run ?b [Advance 30000] (hlsOnError True NETWORK_ERROR ''manifestLoadError'' ?s)"
    by (rule u [THEN conjunct2, THEN conjunct2, rule_format, of 1 "[Advance 30000]", OF nt])
  from a b show ?thesis by (rule conjI)
qed

section \<open>The HLS adapter's error handler\<close>

text \<open>
  C5, as stated, has every fatal error destroy the adapter's state and surface a load
  error, and has the non-fatal events retried.  The handler does nothing on a non-fatal
  event, and treats a fatal one by its type: below, a fatal network error after a load
  is passed to \<^verbatim>\<open>onError\<close> and followed by \<^verbatim>\<open>startLoad()\<close>; the engine is still
  there, and the call of \<^verbatim>\<open>load\<close> is still waiting, neither resolved nor rejected.
\<close>

theorem hlsOnError_fatal_network_counterexample:
  "trace (run \<lparr>canPlayNativeHls = False, hlsSupported = True, dashSupported = True,
                dashFault = None\<rparr>
            [CallLoad ''http://tv.example/a.m3u8'',
             HlsError True NETWORK_ERROR ''manifestLoadError'']
            (initial True False False)) =
   [VideoPause, VideoRemoveSrc, VideoLoad, Load Hls ''http://tv.example/a.m3u8'',
    HlsAttachMedia, SetTimeout 1 30000, ClearTimeout 1,
    CallOnError (HlsErrorData True NETWORK_ERROR ''manifestLoadError''), HlsStartLoad] \<and>
   hls (run \<lparr>canPlayNativeHls = False, hlsSupported = True, dashSupported = True,
              dashFault = None\<rparr>
          [CallLoad ''http://tv.example/a.m3u8'',
           HlsError True NETWORK_ERROR ''manifestLoadError'']
          (initial True False False)) =
   Some \<lparr>source = ''http://tv.example/a.m3u8'', resolved = False, promise = 1\<rparr> \<and>
   pending (run \<lparr>canPlayNativeHls = False, hlsSupported = True, dashSupported = True,
                  dashFault = None\<rparr>
              [CallLoad ''http://tv.example/a.m3u8'',
               HlsError True NETWORK_ERROR ''manifestLoadError'']
              (initial True False False)) = [1]"
proof -
  have d1: "detectStreamType ''http://tv.example/a.m3u8'' = Hls" by code_simp
  show ?thesis by (simp add: pm_eval d1)
qed

text \<open>
  C5 (amended): in the HLS adapter, a non-fatal engine error event changes nothing: it
  starts no retry and reaches no callback.  Every fatal error is first passed to the
  caller's \<^verbatim>\<open>onError\<close> callback through the manager's handler (which cancels the
  pending load timeout).  After that a fatal network error calls \<^verbatim>\<open>startLoad()\<close> and a
  fatal media error calls \<^verbatim>\<open>recoverMediaError()\<close>, both keeping the engine and leaving
  the call of \<^verbatim>\<open>load\<close> waiting; a fatal error of any other type, while the adapter's
  load has neither resolved nor been rejected, destroys the engine and rejects the load
  with the error \<^verbatim>\<open>Fatal HLS error\<close>, which the manager passes to \<^verbatim>\<open>onError\<close> before
  \<^verbatim>\<open>load\<close> returns \<^verbatim>\<open>false\<close>; once the load has resolved, such an error is passed to
  \<^verbatim>\<open>onError\<close> and the engine is kept.
\<close>

theorem hlsOnError_by_class:
  assumes "hls s = Some h"
  shows
    "hlsOnError False t d s = s \<and>
     trace (adapter_onError Hls (HlsErrorData True t d) s) =
       trace s @
       (if adapterEvents s Hls
        then (case loadTimeoutId s of
                None \<Rightarrow> []
              | Some i \<Rightarrow> if i \<noteq> 0 then [ClearTimeout i] else []) @
             (if pm_onError s then [CallOnError (HlsErrorData True t d)] else [])
        else []) \<and>
     (t = NETWORK_ERROR \<longrightarrow>
        hlsOnError True t d s =
          emit HlsStartLoad (adapter_onError Hls (HlsErrorData True t d) s) \<and>
        hls (hlsOnError True t d s) = Some h \<and>
        pending (hlsOnError True t d s) = pending s) \<and>
     (t = MEDIA_ERROR \<longrightarrow>
        hlsOnError True t d s =
          emit HlsRecoverMediaError (adapter_onError Hls (HlsErrorData True t d) s) \<and>
        hls (hlsOnError True t d s) = Some h \<and>
        pending (hlsOnError True t d s) = pending s) \<and>
     (t \<noteq> NETWORK_ERROR \<and> t \<noteq> MEDIA_ERROR \<and> \<not> resolved h \<longrightarrow>
        hls (hlsOnError True t d s) = None \<and>
        promise h \<notin> set (pending (hlsOnError True t d s)) \<and>
        trace (hlsOnError True t d s) =
          trace (adapter_onError Hls (HlsErrorData True t d) s) @ [HlsDestroy] @
          (if promise h \<in> set (pending s)
           then (if pm_onError s
                 then [CallOnError
                         (Error (''Fatal HLS error: '' @ error_type_name t @ '' - '' @ d))]
                 else []) @
                [Returned (promise h) False]
           else [])) \<and>
     (t \<noteq> NETWORK_ERROR \<and> t \<noteq> MEDIA_ERROR \<and> resolved h \<longrightarrow>
        hlsOnError True t d s = adapter_onError Hls (HlsErrorData True t d) s \<and>
        hls (hlsOnError True t d s) = Some h \<and>
        pending (hlsOnError True t d s) = pending s)"
proof -
  let ?s1 = "adapter_onError Hls (HlsErrorData True t d) s"
  have h1: "hls ?s1 = Some h" using assms by simp
  have c1: "hlsOnError False t d s = s"
    using assms by (simp add: hlsOnError_def)
  have c2: "trace ?s1 =
       trace s @
       (if adapterEvents s Hls
        then (case loadTimeoutId s of
                None \<Rightarrow> []
              | Some i \<Rightarrow> if i \<noteq> 0 then [ClearTimeout i] else []) @
             (if pm_onError s then [CallOnError (HlsErrorData True t d)] else [])
        else [])"
    by (simp add: adapter_onError_def onAdapterError_def cancelLoadTimeout_timers
        split: option.splits)
  have c3: "t = NETWORK_ERROR \<longrightarrow>
        hlsOnError True t d s = emit HlsStartLoad ?s1 \<and>
        hls (hlsOnError True t d s) = Some h \<and>
        pending (hlsOnError True t d s) = pending s"
    using assms by (simp add: hlsOnError_def Let_def)
  have c4: "t = MEDIA_ERROR \<longrightarrow>
        hlsOnError True t d s = emit HlsRecoverMediaError ?s1 \<and>
        hls (hlsOnError True t d s) = Some h \<and>
        pending (hlsOnError True t d s) = pending s"
    using assms by (simp add: hlsOnError_def Let_def)
  have e5: "hlsOnError True t d s =
        raceRejected (promise h)
          (Error (''Fatal HLS error: '' @ error_type_name t @ '' - '' @ d))
          (adapter_destroy Hls ?s1)"
    if "t \<noteq> NETWORK_ERROR \<and> t \<noteq> MEDIA_ERROR \<and> \<not> resolved h"
    using assms that by (cases t) (simp_all add: hlsOnError_def Let_def)
  have td: "trace (adapter_destroy Hls ?s1) = trace ?s1 @ [HlsDestroy]"
    using h1 by (simp add: adapter_destroy.simps)
  have c5: "t \<noteq> NETWORK_ERROR \<and> t \<noteq> MEDIA_ERROR \<and> \<not> resolved h \<longrightarrow>
        hls (hlsOnError True t d s) = None \<and>
        promise h \<notin> set (pending (hlsOnError True t d s)) \<and>
        trace (hlsOnError True t d s) =
          trace ?s1 @ [HlsDestroy] @
          (if promise h \<in> set (pending s)
           then (if pm_onError s
                 then [CallOnError
                         (Error (''Fatal HLS error: '' @ error_type_name t @ '' - '' @ d))]
                 else []) @
                [Returned (promise h) False]
           else [])"
  proof
    assume a: "t \<noteq> NETWORK_ERROR \<and> t \<noteq> MEDIA_ERROR \<and> \<not> resolved h"
    show "hls (hlsOnError True t d s) = None \<and>
        promise h \<notin> set (pending (hlsOnError True t d s)) \<and>
        trace (hlsOnError True t d s) =
          trace ?s1 @ [HlsDestroy] @
          (if promise h \<in> set (pending s)
           then (if pm_onError s
                 then [CallOnError
                         (Error (''Fatal HLS error: '' @ error_type_name t @ '' - '' @ d))]
                 else []) @
                [Returned (promise h) False]
           else [])"
      unfolding e5 [OF a]
      by (simp add: raceRejected_trace adapter_destroy_engines td)
  qed
  have c6: "t \<noteq> NETWORK_ERROR \<and> t \<noteq> MEDIA_ERROR \<and> resolved h \<longrightarrow>
        hlsOnError True t d s = ?s1 \<and>
        hls (hlsOnError True t d s) = Some h \<and>
        pending (hlsOnError True t d s) = pending s"
    using assms by (cases t) (simp_all add: hlsOnError_def Let_def)
  from c1 c2 c3 c4 c5 c6 show ?thesis by (intro conjI)
qed

theorem hlsOnError_by_class_witness:
  "hls (run \<lparr>canPlayNativeHls = False, hlsSupported = True, dashSupported = True,
             dashFault = None\<rparr>
          [CallLoad ''http://tv.example/a.m3u8''] (initial True False False)) =
     Some \<lparr>source = ''http://tv.example/a.m3u8'', resolved = False, promise = 1\<rparr> \<and>
   hls (hlsOnError True MEDIA_ERROR ''bufferStalledError''
          (run \<lparr>canPlayNativeHls = False, hlsSupported = True, dashSupported = True,
                 dashFault = None\<rparr>
             [CallLoad ''http://tv.example/a.m3u8''] (initial True False False))) =
     Some \<lparr>source = ''http://tv.example/a.m3u8'', resolved = False, promise = 1\<rparr> \<and>
   hls (hlsOnError True OTHER_ERROR ''internalException''
          (run \<lparr>canPlayNativeHls = False, hlsSupported = True, dashSupported = True,
                 dashFault = None\<rparr>
             [CallLoad ''http://tv.example/a.m3u8''] (initial True False False))) = None \<and>
   hlsOnError False NETWORK_ERROR ''fragLoadError''
     (run \<lparr>canPlayNativeHls = False, hlsSupported = True, dashSupported = True,
            dashFault = None\<rparr>
        [CallLoad ''http://tv.example/a.m3u8''] (initial True False False)) =
   run \<lparr>canPlayNativeHls = False, hlsSupported = True, dashSupported = True,
         dashFault = None\<rparr>
     [CallLoad ''http://tv.example/a.m3u8''] (initial True False False)"
proof -
  let ?b = "\<lparr>canPlayNativeHls = False, hlsSupported = True, dashSupported = True,
             dashFault = None\<rparr>"
  let ?s = "run ?b [CallLoad ''http://tv.example/a.m3u8''] (initial True False False)"
  let ?h = "\<lparr>source = ''http://tv.example/a.m3u8'', resolved = False, promise = 1\<rparr>"
  have d1: "detectStreamType ''http://tv.example/a.m3u8'' = Hls" by code_simp
  have h: "hls ?s = Some ?h" by (simp add: pm_eval d1)
  note m = hlsOnError_by_class [OF h, of MEDIA_ERROR "''bufferStalledError''"]
  note o = hlsOnError_by_class [OF h, of OTHER_ERROR "''internalException''"]
  note n = hlsOnError_by_class [OF h, of NETWORK_ERROR "''fragLoadError''"]
  have a: "hls (hlsOnError True MEDIA_ERROR ''bufferStalledError'' ?s) = Some ?h"
    by (rule m [THEN conjunct2, THEN conjunct2, THEN conjunct2, THEN conjunct1, THEN mp,
          OF refl, THEN conjunct2, THEN conjunct1])
  have p: "OTHER_ERROR \<noteq> NETWORK_ERROR \<and> OTHER_ERROR \<noteq> MEDIA_ERROR \<and> \<not> resolved ?h"
    by simp
  have b: "hls (hlsOnError True OTHER_ERROR ''internalException'' ?s) = None"
    by (rule o [THEN conjunct2, THEN conjunct2, THEN conjunct2, THEN conjunct2,
          THEN conjunct1, THEN mp, OF p, THEN conjunct1])
  have c: "hlsOnError False NETWORK_ERROR ''fragLoadError'' ?s = ?s"
    using n by (rule conjunct1)
  from h a b c show ?thesis by (intro conjI)
qed

section \<open>The rendered list of quality options\<close>

text \<open>
  C6, as stated, gives every level without a height a label derived from its bitrate.
  \<^verbatim>\<open>formatLabel\<close> has a third case: a level with neither a height nor a bitrate is
  labelled \<^verbatim>\<open>Level\<close> and its index.  Below, the second level has no height and no
  bitrate, and its button reads \<^verbatim>\<open>Level 1\<close>.
\<close>

theorem render_bitrate_label_counterexample:
  "map textContent
     (the (popup (render ''Auto''
        \<lparr>playerManager = True, popup = Some [], button = Some False, visible = False,
         currentQuality = - 1,
         levels = [\<lparr>index = 0, height = Some 1080, width = Some 1920, bitrate = Some 5000000\<rparr>,
                   \<lparr>index = 1, height = None, width = None, bitrate = None\<rparr>],
         setQualityCalls = []\<rparr>))) =
   [''Auto'', ''1080p'', ''Level 1'']"
  by (simp add: render_def sortBy_def byHeightDesc_def orZero_def formatLabel_def truthy_def
      showNat.simps digit_def)

text \<open>
  C6 (amended): whenever the quality selector renders (its popup exists), the buttons
  are the Auto option, selecting \<open>-1\<close>, followed by one button for each of the adapter's
  levels, the levels sorted descending by height (a missing height counting as zero,
  levels of equal height keeping their order).  A level with a height is labelled with
  the height and \<^verbatim>\<open>p\<close>; a level lacking a height is labelled from its bitrate when it has
  one, in kbps below 1000 kbps and in Mbps with one decimal from there on; a level with
  neither is labelled \<^verbatim>\<open>Level\<close> and its index.
\<close>

theorem render_auto_first_sorted_desc:
  assumes "popup q = Some p"
  shows
    "(let sorted = sortBy byHeightDesc (levels q)
      in popup (render autoText q) =
           Some (\<lparr>active = (currentQuality q = - 1), textContent = autoText, selects = - 1\<rparr> #
                 map (\<lambda>level. \<lparr>active = (currentQuality q = int (index level)),
                                 textContent = formatLabel level,
                                 selects = int (index level)\<rparr>) sorted) \<and>
         mset sorted = mset (levels q) \<and>
         sorted_wrt (\<lambda>a b. orZero (height b) \<le> orZero (height a)) sorted \<and>
         (\<forall>h. filter (\<lambda>l. orZero (height l) = h) sorted =
              filter (\<lambda>l. orZero (height l) = h) (levels q)) \<and>
         (\<forall>l \<in> set sorted.
            (\<forall>h. height l = Some h \<and> h \<noteq> 0 \<longrightarrow> formatLabel l = showNat h @ ''p'') \<and>
            (\<forall>r. \<not> truthy (height l) \<and> bitrate l = Some r \<and> r \<noteq> 0 \<longrightarrow>
               formatLabel l =
                 (if 1000 \<le> mathRound (div1000 r)
                  then toFixed1 (div1000 (mathRound (div1000 r))) @ '' Mbps''
                  else showNat (mathRound (div1000 r)) @ '' kbps'')) \<and>
            (\<not> truthy (height l) \<and> \<not> truthy (bitrate l) \<longrightarrow>
               formatLabel l = ''Level '' @ showNat (index l))))"
proof -
  have shape: "popup (render autoText q) =
           Some (\<lparr>active = (currentQuality q = - 1), textContent = autoText, selects = - 1\<rparr> #
                 map (\<lambda>level. \<lparr>active = (currentQuality q = int (index level)),
                                 textContent = formatLabel level,
                                 selects = int (index level)\<rparr>)
                   (sortBy byHeightDesc (levels q)))"
    using assms by (simp add: render_def Let_def)
  have labels: "(\<forall>h. height l = Some h \<and> h \<noteq> 0 \<longrightarrow> formatLabel l = showNat h @ ''p'') \<and>
            (\<forall>r. \<not> truthy (height l) \<and> bitrate l = Some r \<and> r \<noteq> 0 \<longrightarrow>
               formatLabel l =
                 (if 1000 \<le> mathRound (div1000 r)
                  then toFixed1 (div1000 (mathRound (div1000 r))) @ '' Mbps''
                  else showNat (mathRound (div1000 r)) @ '' kbps'')) \<and>
            (\<not> truthy (height l) \<and> \<not> truthy (bitrate l) \<longrightarrow>
               formatLabel l = ''Level '' @ showNat (index l))" for l
    by (simp add: formatLabel_def truthy_def orZero_def Let_def)
  show ?thesis
    unfolding Let_def
    using shape mset_sortBy [of byHeightDesc "levels q"]
      sorted_sortBy_byHeightDesc [of "levels q"]
      filter_sortBy_byHeightDesc [of _ "levels q"] labels
    by blast
qed

theorem render_auto_first_sorted_desc_witness:
  "popup
     \<lparr>playerManager = True, popup = Some [], button = Some False, visible = False,
      currentQuality = 2,
      levels = [\<lparr>index = 0, height = Some 480, width = Some 854, bitrate = Some 1200000\<rparr>,
                \<lparr>index = 1, height = Some 1080, width = Some 1920, bitrate = Some 5000000\<rparr>,
                \<lparr>index = 2, height = Some 720, width = Some 1280, bitrate = Some 2500000\<rparr>,
                \<lparr>index = 3, height = None, width = None, bitrate = Some 1250000\<rparr>],
      setQualityCalls = []\<rparr> = Some [] \<and>
   popup (render ''Auto''
     \<lparr>playerManager = True, popup = Some [], button = Some False, visible = False,
      currentQuality = 2,
      levels = [\<lparr>index = 0, height = Some 480, width = Some 854, bitrate = Some 1200000\<rparr>,
                \<lparr>index = 1, height = Some 1080, width = Some 1920, bitrate = Some 5000000\<rparr>,
                \<lparr>index = 2, height = Some 720, width = Some 1280, bitrate = Some 2500000\<rparr>,
                \<lparr>index = 3, height = None, width = None, bitrate = Some 1250000\<rparr>],
      setQualityCalls = []\<rparr>) =
   Some [\<lparr>active = False, textContent = ''Auto'', selects = - 1\<rparr>,
         \<lparr>active = False, textContent = ''1080p'', selects = 1\<rparr>,
         \<lparr>active = True, textContent = ''720p'', selects = 2\<rparr>,
         \<lparr>active = False, textContent = ''480p'', selects = 0\<rparr>,
         \<lparr>active = False, textContent = ''1.3 Mbps'', selects = 3\<rparr>]"
proof -
  let ?q = "\<lparr>playerManager = True, popup = Some [], button = Some False, visible = False,
      currentQuality = 2,
      levels = [\<lparr>index = 0, height = Some 480, width = Some 854, bitrate = Some 1200000\<rparr>,
                \<lparr>index = 1, height = Some 1080, width = Some 1920, bitrate = Some 5000000\<rparr>,
                \<lparr>index = 2, height = Some 720, width = Some 1280, bitrate = Some 2500000\<rparr>,
                \<lparr>index = 3, height = None, width = None, bitrate = Some 1250000\<rparr>],
      setQualityCalls = []\<rparr>"
  have p: "popup ?q = Some []" by simp
  have "popup (render ''Auto'' ?q) =
           Some (\<lparr>active = (currentQuality ?q = - 1), textContent = ''Auto'', selects = - 1\<rparr> #
                 map (\<lambda>level. \<lparr>active = (currentQuality ?q = int (index level)),
                                 textContent = formatLabel level,
                                 selects = int (index level)\<rparr>)
                   (sortBy byHeightDesc (levels ?q)))"
    using render_auto_first_sorted_desc [OF p, of "''Auto''"] unfolding Let_def by (rule conjunct1)
  then show ?thesis
    by (simp add: sortBy_def byHeightDesc_def orZero_def formatLabel_def truthy_def
        showNat.simps digit_def scaleExp.simps div1000_def mathRound_def toFixed1_def)
qed

section \<open>New levels reset the selection\<close>



section \<open>Starting while a recording is active\<close>

text \<open>
  C8: when \<^verbatim>\<open>start()\<close> is called while \<^verbatim>\<open>this.recording\<close> is true, it returns
  \<^verbatim>\<open>false\<close> and the recorder is left exactly as it was: the accumulated chunks, the
  \<^verbatim>\<open>MediaRecorder\<close>, the capture stream, the recording flag and the start time are
  untouched, no callback is invoked, and nothing is stored that would start a recording
  later.
\<close>

theorem start_while_recording_fails:
  "recording r \<Longrightarrow> start env r = (False, r)"
  by (simp add: start_def)

theorem start_while_recording_fails_witness:
  "recording
     \<lparr>videoElement = Some \<lparr>paused = False, readyState = 4\<rparr>,
      mediaRecorder = Some \<lparr>mimeType = ''video/webm; codecs=vp8,opus'',
        mr_videoBitsPerSecond = 1500000, mr_audioBitsPerSecond = 128000,
        timeslice = Some 1000\<rparr>,
      recordedChunks = [\<lparr>blob_type = ''video/webm'', bytes = [26, 69, 223, 163]\<rparr>],
      stream = Some \<lparr>frameRate = 30, tracksStopped = False\<rparr>,
      recording = True, startTime = Some 1000, currentPreset = Medium,
      onStart = False, onStop = True, onError = True, onDataAvailable = False,
      calls = []\<rparr> \<and>
   start \<lparr>isSupported = True, now = 5000, fault = None\<rparr>
     \<lparr>videoElement = Some \<lparr>paused = False, readyState = 4\<rparr>,
      mediaRecorder = Some \<lparr>mimeType = ''video/webm; codecs=vp8,opus'',
        mr_videoBitsPerSecond = 1500000, mr_audioBitsPerSecond = 128000,
        timeslice = Some 1000\<rparr>,
      recordedChunks = [\<lparr>blob_type = ''video/webm'', bytes = [26, 69, 223, 163]\<rparr>],
      stream = Some \<lparr>frameRate = 30, tracksStopped = False\<rparr>,
      recording = True, startTime = Some 1000, currentPreset = Medium,
      onStart = False, onStop = True, onError = True, onDataAvailable = False,
      calls = []\<rparr> =
   (False,
     \<lparr>videoElement = Some \<lparr>paused = False, readyState = 4\<rparr>,
      mediaRecorder = Some \<lparr>mimeType = ''video/webm; codecs=vp8,opus'',
        mr_videoBitsPerSecond = 1500000, mr_audioBitsPerSecond = 128000,
        timeslice = Some 1000\<rparr>,
      recordedChunks = [\<lparr>blob_type = ''video/webm'', bytes = [26, 69, 223, 163]\<rparr>],
      stream = Some \<lparr>frameRate = 30, tracksStopped = False\<rparr>,
      recording = True, startTime = Some 1000, currentPreset = Medium,
      onStart = False, onStop = True, onError = True, onDataAvailable = False,
      calls = []\<rparr>)"
proof -
  have r: "recording
     \<lparr>videoElement = Some \<lparr>paused = False, readyState = 4\<rparr>,
      mediaRecorder = Some \<lparr>mimeType = ''video/webm; codecs=vp8,opus'',
        mr_videoBitsPerSecond = 1500000, mr_audioBitsPerSecond = 128000,
        timeslice = Some 1000\<rparr>,
      recordedChunks = [\<lparr>blob_type = ''video/webm'', bytes = [26, 69, 223, 163]\<rparr>],
      stream = Some \<lparr>frameRate = 30, tracksStopped = False\<rparr>,
      recording = True, startTime = Some 1000, currentPreset = Medium,
      onStart = False, onStop = True, onError = True, onDataAvailable = False,
      calls = []\<rparr>"
    by simp
  show ?thesis
    using r start_while_recording_fails [OF r, of "\<lparr>isSupported = True, now = 5000, fault = None\<rparr>"]
    by (rule conjI)
qed

section \<open>The file name of a recording\<close>

text \<open>
  C9, as stated, has control characters stripped from the label.  The first
  \<^verbatim>\<open>replace\<close> of \<^verbatim>\<open>generateFilename\<close> removes the nine characters
  \<^verbatim>\<open>< > : " / \ | ? *\<close> and nothing else, and the second turns whitespace into
  underscores; a control character that is not whitespace passes through both.  Below,
  the channel name starts with the bell character (code 7), and so does the file name.
\<close>

theorem generateFilename_control_char_counterexample:
  "generateFilename
     \<lparr>year = 2026, month = 11, day = 2, hours = 8, minutes = 44, seconds = 0,
      milliseconds = 123\<rparr>
     (Some [CHR 0x07, CHR ''A'']) =
   CHR 0x07 # ''A_2026-11-02_08-44-00.webm''"
  by (simp add: generateFilename_def safeName_def removeReserved_def reservedChars_def
      isSpace_def timestampOf_shape pad4 pad2 digit_def)

text \<open>
  C9 (amended): for every channel name, \<^verbatim>\<open>generateFilename\<close> produces the sanitized
  label, an underscore, the timestamp and \<^verbatim>\<open>.webm\<close>.  The label is the name with the
  characters \<^verbatim>\<open>< > : " / \ | ? *\<close> (both path separators among them) stripped, then
  every run of whitespace replaced by one underscore, then cut to at most 50 characters;
  it contains none of the stripped characters and no whitespace.  For a date with a
  four-digit year the timestamp is \<^verbatim>\<open>YYYY-MM-DD_HH-mm-ss\<close>, 19 characters long, and the
  timestamps of two such dates sort as strings exactly as the dates do in time, down to
  the second.
\<close>

theorem generateFilename_label_and_timestamp:
  "generateFilename d (Some name) = safeName name @ ''_'' @ timestampOf d @ ''.webm'' \<and>
   generateFilename d None = ''recording_'' @ timestampOf d @ ''.webm'' \<and>
   safeName name = take 50 (replaceSpaceRuns (filter (\<lambda>c. c \<notin> set reservedChars) name)) \<and>
   length (safeName name) \<le> 50 \<and>
   (\<forall>c \<in> set (safeName name). c \<notin> set reservedChars \<and> \<not> isSpace c) \<and>
   (\<forall>u. (\<forall>c \<in> set u. \<not> isSpace c) \<longrightarrow> replaceSpaceRuns u = u) \<and>
   (\<forall>u w v. w \<noteq> [] \<and> (\<forall>c \<in> set w. isSpace c) \<and> (u = [] \<or> \<not> isSpace (last u)) \<and>
            (v = [] \<or> \<not> isSpace (hd v)) \<longrightarrow>
      replaceSpaceRuns (u @ w @ v) = replaceSpaceRuns u @ ''_'' @ replaceSpaceRuns v) \<and>
   (validDate d \<longrightarrow>
      timestampOf d =
        pad 4 (year d) @ ''-'' @ pad 2 (month d) @ ''-'' @ pad 2 (day d) @ ''_'' @
        pad 2 (hours d) @ ''-'' @ pad 2 (minutes d) @ ''-'' @ pad 2 (seconds d) \<and>
      length (timestampOf d) = 19) \<and>
   (\<forall>later. validDate d \<and> validDate later \<longrightarrow>
      (sortsBefore (timestampOf d) (timestampOf later) \<longleftrightarrow> earlier d later))"
proof -
  have f1: "generateFilename d (Some name) =
      safeName name @ ''_'' @ timestampOf d @ ''.webm''"
    by (simp add: generateFilename_def)
  have f2: "generateFilename d None = ''recording_'' @ timestampOf d @ ''.webm''"
    by (simp add: generateFilename_def safeName_def removeReserved_def reservedChars_def
        isSpace_def)
  have f3: "safeName name =
      take 50 (replaceSpaceRuns (filter (\<lambda>c. c \<notin> set reservedChars) name))"
    by (simp add: safeName_def removeReserved_def)
  have f4: "length (safeName name) \<le> 50"
    by (simp add: safeName_def)
  have f5: "\<forall>c \<in> set (safeName name). c \<notin> set reservedChars \<and> \<not> isSpace c"
    by (intro ballI, rule safeName_chars)
  have f6: "\<forall>u. (\<forall>c \<in> set u. \<not> isSpace c) \<longrightarrow> replaceSpaceRuns u = u"
    by (intro allI impI, rule replaceSpaceRuns_no_space)
  have f7: "\<forall>u w v. w \<noteq> [] \<and> (\<forall>c \<in> set w. isSpace c) \<and> (u = [] \<or> \<not> isSpace (last u)) \<and>
            (v = [] \<or> \<not> isSpace (hd v)) \<longrightarrow>
      replaceSpaceRuns (u @ w @ v) = replaceSpaceRuns u @ ''_'' @ replaceSpaceRuns v"
  proof (intro allI impI)
    fix u w v :: string
    assume h: "w \<noteq> [] \<and> (\<forall>c \<in> set w. isSpace c) \<and> (u = [] \<or> \<not> isSpace (last u)) \<and>
            (v = [] \<or> \<not> isSpace (hd v))"
    show "replaceSpaceRuns (u @ w @ v) = replaceSpaceRuns u @ ''_'' @ replaceSpaceRuns v"
      by (rule replaceSpaceRuns_collapse) (use h in simp_all)
  qed
  have f8: "validDate d \<longrightarrow>
      timestampOf d =
        pad 4 (year d) @ ''-'' @ pad 2 (month d) @ ''-'' @ pad 2 (day d) @ ''_'' @
        pad 2 (hours d) @ ''-'' @ pad 2 (minutes d) @ ''-'' @ pad 2 (seconds d) \<and>
      length (timestampOf d) = 19"
    by (simp add: validDate_def timestampOf_shape length_pad)
  have f9: "\<forall>later. validDate d \<and> validDate later \<longrightarrow>
      (sortsBefore (timestampOf d) (timestampOf later) \<longleftrightarrow> earlier d later)"
    by (intro allI impI, elim conjE, rule timestampOf_order)
  from f1 f2 f3 f4 f5 f6 f7 f8 f9 show ?thesis by (intro conjI)
qed

theorem generateFilename_label_and_timestamp_witness:
  "validDate \<lparr>year = 2026, month = 11, day = 2, hours = 8, minutes = 44, seconds = 0,
      milliseconds = 123\<rparr> \<and>
   validDate \<lparr>year = 2026, month = 11, day = 2, hours = 8, minutes = 44, seconds = 1,
      milliseconds = 0\<rparr> \<and>
   generateFilename
     \<lparr>year = 2026, month = 11, day = 2, hours = 8, minutes = 44, seconds = 0,
      milliseconds = 123\<rparr>
     (Some ''La  1 / HD <x>  y'') = ''La_1_HD_x_y_2026-11-02_08-44-00.webm'' \<and>
   sortsBefore
     (timestampOf \<lparr>year = 2026, month = 11, day = 2, hours = 8, minutes = 44, seconds = 0,
        milliseconds = 123\<rparr>)
     (timestampOf \<lparr>year = 2026, month = 11, day = 2, hours = 8, minutes = 44, seconds = 1,
        milliseconds = 0\<rparr>)"
proof -
  let ?a = "\<lparr>year = 2026, month = 11, day = 2, hours = 8, minutes = 44, seconds = 0,
      milliseconds = 123\<rparr>"
  let ?b = "\<lparr>year = 2026, month = 11, day = 2, hours = 8, minutes = 44, seconds = 1,
      milliseconds = 0\<rparr>"
  note t = generateFilename_label_and_timestamp [of ?a "''La  1 / HD <x>  y''"]
  note t1 = t [THEN conjunct1]
  note t3 = t [THEN conjunct2, THEN conjunct2, THEN conjunct1]
  note t8 = t [THEN conjunct2, THEN conjunct2, THEN conjunct2, THEN conjunct2, THEN conjunct2,
      THEN conjunct2, THEN conjunct2, THEN conjunct1]
  note t9 = t [THEN conjunct2, THEN conjunct2, THEN conjunct2, THEN conjunct2, THEN conjunct2,
      THEN conjunct2, THEN conjunct2, THEN conjunct2]
  have va: "validDate ?a" and vb: "validDate ?b" by (simp_all add: validDate_def)
  have ts: "timestampOf ?a = ''2026-11-02_08-44-00''"
    using t8 va by (simp add: pad4 pad2 digit_def)
  have nm: "safeName ''La  1 / HD <x>  y'' = ''La_1_HD_x_y''"
    unfolding t3 by (simp add: reservedChars_def isSpace_def)
  have fn: "generateFilename ?a (Some ''La  1 / HD <x>  y'') =
      ''La_1_HD_x_y_2026-11-02_08-44-00.webm''"
    unfolding t1 ts nm by simp
  have e: "earlier ?a ?b" by (simp add: earlier_def)
  have so: "sortsBefore (timestampOf ?a) (timestampOf ?b)"
    using t9 [rule_format, of ?b] va vb e by simp
  from va vb fn so show ?thesis by (intro conjI)
qed

section \<open>The chunks of one recording\<close>




end
